theory Spec2Isabelle
  imports Main "HOL-Library.Word" "HOL-Library.Multiset" "HOL-Library.Sublist"
    "HOL-Library.Product_Lexorder"
begin

unbundle bit_operations_syntax

section \<open>Data model of package mocksy\<close>

text \<open>
  Go strings are byte sequences compared byte for byte: \<open>string\<close>. A \<open>[]byte\<close> is a list of
  8-bit words; \<open>bytes.Equal\<close> is equality of the two sequences (a nil slice equals an empty
  one, both are the empty list here).
\<close>

type_synonym byte = "8 word"

text \<open>
  Modelled from the spec: the declarations of \<open>Host\<close> and \<open>Item\<close> live in another file of
  the package. The fields are the ones matcher.go reads (\<open>e.Host.Value\<close>, \<open>e.Host.Ip\<close>,
  \<open>ra.Path\<close>, \<open>ra.Request.Value\<close>, \<open>ra.Method\<close>, \<open>ra.Protocol\<close>, \<open>ra.Port\<close>); the
  response payload is the opaque cargo of the spec's data model. \<open>RequestValue\<close> stands for
  the path \<open>Request.Value\<close>.
\<close>

record Host =
  Value :: string
  Ip :: string

record Item =
  Host :: Host
  Port :: string
  Protocol :: string
  Method :: string
  Path :: string
  RequestValue :: "byte list"
  ResponseValue :: "byte list"

text \<open>
  \<open>compareArgs\<close> of matcher.go. Its fields carry the prefix \<open>args\<close> because \<open>Item\<close> already
  owns the names \<open>Host\<close>, \<open>Port\<close>, \<open>Protocol\<close>, \<open>Method\<close> and \<open>Path\<close>.
\<close>

record compareArgs =
  argsRequest :: "byte list"
  argsHost :: Host
  argsPort :: string
  argsProtocol :: string
  argsMethod :: string
  argsPath :: string

section \<open>The comparator\<close>

text \<open>
  The loop of \<open>longestPrefix\<close>: \<open>for i := 0; i < len(a) && i < len(b); i++\<close>, leaving at
  the first differing byte and counting \<open>pfx\<close> otherwise.
\<close>

function longestPrefixLoop :: "string \<Rightarrow> string \<Rightarrow> nat \<Rightarrow> nat \<Rightarrow> nat" where
  "longestPrefixLoop a b i pfx =
     (if i < length a \<and> i < length b then
        (if a ! i \<noteq> b ! i then pfx else longestPrefixLoop a b (i + 1) (pfx + 1))
      else pfx)"
  by pat_completeness auto
termination
  by (relation "measure (\<lambda>(a, b, i, pfx). length a - i)") auto

declare longestPrefixLoop.simps [simp del]

text \<open>
  \<open>longestPrefix\<close> has named results: on equal strings it returns at once, with \<open>pfx\<close>
  still zero and \<open>perfectMatch\<close> true.
\<close>

definition longestPrefix :: "string \<Rightarrow> string \<Rightarrow> nat \<times> bool" where
  "longestPrefix a b =
     (let perfectMatch = (a = b) in
      if perfectMatch then (0, perfectMatch)
      else (longestPrefixLoop a b 0 0, perfectMatch))"

text \<open>
  The closure returned by \<open>fuzzyComparer(reqs, args)\<close>, applied to \<open>i\<close> and \<open>j\<close>. \<open>reqs\<close> is
  what the slice holds at the moment of the call. Reading \<open>reqs[i]\<close> outside the slice
  panics in Go: \<open>None\<close>. The lengths are Go \<open>int\<close>s; both are between 0 and the largest
  \<open>int\<close>, so neither the differences nor their negations leave the range of \<open>int\<close> and
  unbounded integers compute the same values.
\<close>

definition fuzzyComparer :: "Item list \<Rightarrow> compareArgs \<Rightarrow> nat \<Rightarrow> nat \<Rightarrow> bool option" where
  "fuzzyComparer reqs args i j =
     (if \<not> (i < length reqs \<and> j < length reqs) then None
      else
        let ra = reqs ! i; rb = reqs ! j;
            perfectMatchA = snd (longestPrefix (Path ra) (argsPath args));
            perfectMatchB = snd (longestPrefix (Path rb) (argsPath args))
        in
        if perfectMatchA \<noteq> perfectMatchB then Some perfectMatchA
        else
          let reqAExact = (RequestValue ra = argsRequest args);
              reqBExact = (RequestValue rb = argsRequest args)
          in
          if reqAExact \<noteq> reqBExact then Some reqAExact
          else
            let diffLenA0 = int (length (RequestValue ra)) - int (length (argsRequest args));
                diffLenB0 = int (length (RequestValue rb)) - int (length (argsRequest args));
                diffLenA = (if diffLenA0 < 0 then - diffLenA0 else diffLenA0);
                diffLenB = (if diffLenB0 < 0 then - diffLenB0 else diffLenB0);
                aMatchesMost = (diffLenA < diffLenB)
            in
            if (Method ra = argsMethod args) \<noteq> (Method rb = argsMethod args) then
              (if (Method ra = argsMethod args) \<noteq> aMatchesMost
               then Some (Method ra = argsMethod args)
               else Some (Method ra = argsMethod args))
            else if (Protocol ra = argsProtocol args) \<noteq> (Protocol rb = argsProtocol args) then
              Some (Protocol ra = argsProtocol args)
            else if (Port ra = argsPort args) \<noteq> (Port rb = argsPort args) then
              Some (Port ra = argsPort args)
            else Some aMatchesMost)"

text \<open>
  The distance of a candidate's body length from the incoming body's length, and the
  rank of a candidate: one flag for each criterion the candidate misses, in the order
  the closure consults them, then the distance. Both are devices of the proofs.
\<close>

definition bodyDistance :: "compareArgs \<Rightarrow> Item \<Rightarrow> nat" where
  "bodyDistance args r = nat \<bar>int (length (RequestValue r)) - int (length (argsRequest args))\<bar>"

definition rank :: "compareArgs \<Rightarrow> Item \<Rightarrow> bool \<times> bool \<times> bool \<times> bool \<times> bool \<times> nat" where
  "rank args r =
     (Path r \<noteq> argsPath args, RequestValue r \<noteq> argsRequest args,
      Method r \<noteq> argsMethod args, Protocol r \<noteq> argsProtocol args,
      Port r \<noteq> argsPort args, bodyDistance args r)"

section \<open>Slices, backing arrays and the incoming request\<close>

text \<open>
  A Go slice is a header (address of the backing array, length, capacity); the arrays
  live in the heap and are shared by every header that points at them. The heap is the
  list \<open>arrays\<close>, an address is an index into it, and each array is as long as its
  capacity. No slice of matcher.go is re-sliced, so every header starts at offset 0.
\<close>

type_synonym addr = nat

record slice =
  Data :: addr
  Len :: nat
  Cap :: nat

text \<open>
  The body of the incoming request (\<open>req.Body\<close>, an \<open>io.ReadCloser\<close>): the bytes it has
  still to deliver, the error it raises after them (\<open>None\<close>: it ends with EOF), and the
  number of times it has been read to its end so far.
\<close>

record bodyStream =
  unread :: "byte list"
  fault :: "string option"
  readAlls :: nat

text \<open>
  What matcher.go reads of \<open>*http.Request\<close>, apart from the body: \<open>req.Host\<close>,
  \<open>req.RemoteAddr\<close>, \<open>req.Header\<close> (canonical key to values), \<open>req.Method\<close>, \<open>req.Proto\<close>, and
  the results of \<open>req.URL.Port()\<close> and \<open>req.URL.EscapedPath()\<close>.
\<close>

record httpRequest =
  reqHost :: string
  reqRemoteAddr :: string
  reqHeader :: "string \<Rightarrow> string list option"
  reqMethod :: string
  reqProto :: string
  reqURLPort :: string
  reqURLEscapedPath :: string

text \<open>
  Everything the package can change: the heap of backing arrays, the package variable
  \<open>responseHistory\<close>, what has been written to \<open>os.Stderr\<close>, and the body stream of the
  request being matched.
\<close>

record world =
  arrays :: "Item list list"
  responseHistory :: slice
  stderr :: "string list"
  reqBody :: bodyStream

text \<open>
  Two routines of the Go runtime and library are parameters of the package's functions:
  \<^item> \<open>growslice c\<close>: the capacity \<open>append\<close> asks for when a slice of capacity \<open>c\<close> is full;
  \<^item> \<open>sortSlice less xs\<close>: the order in which \<open>sort.Slice\<close> leaves a slice that held \<open>xs\<close>.
    \<open>less\<close> takes the present contents of the slice first, since the closure reads
    \<open>reqs[i]\<close> from the array that \<open>sort.Slice\<close> is permuting.
  What is proved for every runtime holds whatever the two routines do; \<open>goSortSlice\<close>
  below is the library's own \<open>sort.Slice\<close>.
\<close>

record runtime =
  growslice :: "nat \<Rightarrow> nat"
  sortSlice :: "(Item list \<Rightarrow> nat \<Rightarrow> nat \<Rightarrow> bool option) \<Rightarrow> Item list \<Rightarrow> Item list"

text \<open>The elements a slice shows: the first \<open>Len\<close> cells of its array.\<close>

definition elems :: "world \<Rightarrow> slice \<Rightarrow> Item list" where
  "elems w s = take (Len s) (arrays w ! Data s)"

text \<open>
  Go is memory safe: the header of a live slice points at an allocated array and stays
  within it.
\<close>

definition wfSlice :: "world \<Rightarrow> slice \<Rightarrow> bool" where
  "wfSlice w s \<longleftrightarrow>
     Data s < length (arrays w) \<and> Len s \<le> Cap s \<and> Cap s \<le> length (arrays w ! Data s)"

text \<open>The zero value of \<open>Item\<close>, which fills newly allocated cells.\<close>

definition zeroItem :: Item where
  "zeroItem =
     \<lparr>Host = \<lparr>Value = [], Ip = []\<rparr>, Port = [], Protocol = [], Method = [], Path = [],
      RequestValue = [], ResponseValue = []\<rparr>"

text \<open>
  \<open>make([]Item, 0)\<close>: a slice of length and capacity 0. Go points every such slice at one
  zero-sized object that nothing can write to; here it gets an empty array of its own.
\<close>

definition makeSlice0 :: "world \<Rightarrow> slice \<times> world" where
  "makeSlice0 w =
     (\<lparr>Data = length (arrays w), Len = 0, Cap = 0\<rparr>, w\<lparr>arrays := arrays w @ [[]]\<rparr>)"

text \<open>
  \<open>append(s, e)\<close>: with room left, \<open>e\<close> is written into the array of \<open>s\<close> at index \<open>Len s\<close>;
  without, a larger array is allocated, the elements of \<open>s\<close> are copied into it and \<open>e\<close>
  follows them.
\<close>

definition appendSlice :: "runtime \<Rightarrow> world \<Rightarrow> slice \<Rightarrow> Item \<Rightarrow> slice \<times> world" where
  "appendSlice rt w s e =
     (if Len s < Cap s then
        (s\<lparr>Len := Len s + 1\<rparr>,
         w\<lparr>arrays := (arrays w)[Data s := (arrays w ! Data s)[Len s := e]]\<rparr>)
      else
        let c = max (Len s + 1) (growslice rt (Cap s));
            arr = elems w s @ [e] @ replicate (c - (Len s + 1)) zeroItem
        in (\<lparr>Data = length (arrays w), Len = Len s + 1, Cap = c\<rparr>,
            w\<lparr>arrays := arrays w @ [arr]\<rparr>))"

text \<open>\<open>ioutil.ReadAll(req.Body)\<close>: the bytes read and the error, if any; the stream is drained.\<close>

definition ReadAll :: "world \<Rightarrow> (byte list \<times> string option) \<times> world" where
  "ReadAll w =
     ((unread (reqBody w), fault (reqBody w)),
      w\<lparr>reqBody := (reqBody w)\<lparr>unread := [], readAlls := readAlls (reqBody w) + 1\<rparr>\<rparr>)"

text \<open>\<open>Header.Get(key)\<close>: the first value stored under the key, the empty string without one.\<close>

definition HeaderGet :: "(string \<Rightarrow> string list option) \<Rightarrow> string \<Rightarrow> string" where
  "HeaderGet h key = (case h key of None \<Rightarrow> [] | Some [] \<Rightarrow> [] | Some (v # vs) \<Rightarrow> v)"

text \<open>\<open>strings.Index(s, sep)\<close>: where \<open>sep\<close> first occurs in \<open>s\<close>, or -1.\<close>

fun stringsIndex :: "string \<Rightarrow> string \<Rightarrow> int" where
  "stringsIndex [] sep = (if sep = [] then 0 else - 1)"
| "stringsIndex (c # s) sep =
     (if prefix sep (c # s) then 0
      else let r = stringsIndex s sep in if r < 0 then - 1 else r + 1)"

section \<open>The history store\<close>

text \<open>\<open>init\<close>: the world a process starts in, with \<open>responseHistory = make([]Item, 0)\<close>.\<close>

definition init :: "bodyStream \<Rightarrow> world" where
  "init b =
     (let (s, w) = makeSlice0 \<lparr>arrays = [], responseHistory = \<lparr>Data = 0, Len = 0, Cap = 0\<rparr>,
                               stderr = [], reqBody = b\<rparr>
      in w\<lparr>responseHistory := s\<rparr>)"

definition AddToHistory :: "runtime \<Rightarrow> world \<Rightarrow> Item \<Rightarrow> world" where
  "AddToHistory rt w itm =
     (let (s, w1) = appendSlice rt w (responseHistory w) itm in w1\<lparr>responseHistory := s\<rparr>)"

definition HistoryLength :: "world \<Rightarrow> int" where
  "HistoryLength w = int (Len (responseHistory w))"

section \<open>Host resolution and filtering\<close>

definition findHost :: "httpRequest \<Rightarrow> Host" where
  "findHost req =
     (let host = \<lparr>Value = reqHost req, Ip = []\<rparr>;
          ip = HeaderGet (reqHeader req) ''X-Forwarded-For''
      in
      if length ip > 0 then host\<lparr>Ip := ip\<rparr>
      else
        let host1 = host\<lparr>Ip := reqRemoteAddr req\<rparr>;
            id = stringsIndex (Ip host1) '':''
        in if id > - 1 then host1\<lparr>Ip := take (nat id) (Ip host1)\<rparr> else host1)"

text \<open>
  The loop of \<open>filterByHost\<close>, \<open>for _, e := range lst\<close>: the header \<open>lst\<close> is fixed when the
  loop starts, and each round copies the cell \<open>lst[i]\<close> out of the array as it is then.
\<close>

function filterByHostLoop ::
  "runtime \<Rightarrow> slice \<Rightarrow> Host \<Rightarrow> nat \<Rightarrow> slice \<times> world \<Rightarrow> slice \<times> world" where
  "filterByHostLoop rt lst host i (newlst, w) =
     (if i < Len lst then
        let e = arrays w ! Data lst ! i in
        filterByHostLoop rt lst host (i + 1)
          (if Value (Host e) = Value host \<or> Ip (Host e) = Ip host
           then appendSlice rt w newlst e
           else (newlst, w))
      else (newlst, w))"
  by pat_completeness auto
termination
  by (relation "measure (\<lambda>(rt, lst, host, i, nw). Len lst - i)") auto

declare filterByHostLoop.simps [simp del]

definition filterByHost :: "runtime \<Rightarrow> world \<Rightarrow> slice \<Rightarrow> Host \<Rightarrow> slice \<times> world" where
  "filterByHost rt w lst host = filterByHostLoop rt lst host 0 (makeSlice0 w)"

section \<open>Ranking and selection\<close>

text \<open>
  \<open>sort.Slice(reqs, less)\<close> permutes the cells the slice shows and touches nothing else.
\<close>

definition sort_Slice ::
  "runtime \<Rightarrow> world \<Rightarrow> slice \<Rightarrow> (Item list \<Rightarrow> nat \<Rightarrow> nat \<Rightarrow> bool option) \<Rightarrow> world" where
  "sort_Slice rt w reqs lessFn =
     w\<lparr>arrays := (arrays w)[Data reqs :=
          sortSlice rt lessFn (elems w reqs) @ drop (Len reqs) (arrays w ! Data reqs)]\<rparr>"

definition fuzzySort :: "runtime \<Rightarrow> world \<Rightarrow> slice \<Rightarrow> Host \<Rightarrow> httpRequest \<Rightarrow> world" where
  "fuzzySort rt w reqs host req =
     (if Len reqs = 0 then w
      else
        let ((body, err), w1) = ReadAll w in
        case err of
          Some msg \<Rightarrow>
            w1\<lparr>stderr := stderr w1 @
                 [''mocksy: error reading body of request while sorting: '' @ msg @ [CHR 0x0A]]\<rparr>
        | None \<Rightarrow>
            sort_Slice rt w1 reqs
              (\<lambda>cur. fuzzyComparer cur
                 \<lparr>argsRequest = body, argsHost = host, argsPort = reqURLPort req,
                  argsProtocol = reqProto req, argsMethod = reqMethod req,
                  argsPath = reqURLEscapedPath req\<rparr>))"

definition FindMatching :: "runtime \<Rightarrow> world \<Rightarrow> httpRequest \<Rightarrow> string \<times> world" where
  "FindMatching rt w req =
     (let host = findHost req;
          (viableReqs, w1) = filterByHost rt w (responseHistory w) host;
          w2 = fuzzySort rt w1 viableReqs host req
      in ([], w2))"

section \<open>The library routine \<open>sort.Slice\<close>\<close>

text \<open>
  \<open>sort.Slice\<close> belongs to the Go standard library, not to the repository. This section
  transcribes the routine of package \<open>sort\<close> as it stands since Go 1.19, function by
  function: \<open>Slice\<close> calls \<open>pdqsort_func\<close> (pattern-defeating quicksort), which sorts
  ranges of at most 12 elements by \<open>insertionSort_func\<close>, falls back to \<open>heapSort_func\<close>
  after too many bad pivots, and otherwise chooses a pivot and partitions. The slice is
  the list of its elements; \<open>data.Less(i, j)\<close> asks the closure about the present
  contents, \<open>data.Swap(i, j)\<close> exchanges two cells. Go's \<open>int\<close> indices are natural
  numbers here wherever the code keeps them non-negative, and integers in the two
  partition routines, whose \<open>j\<close> may step below the first index a loop looks at.
\<close>

type_synonym lessFunc = "Item list \<Rightarrow> nat \<Rightarrow> nat \<Rightarrow> bool option"

definition lessAt :: "lessFunc \<Rightarrow> Item list \<Rightarrow> nat \<Rightarrow> nat \<Rightarrow> bool" where
  "lessAt lessFn xs i j \<longleftrightarrow> lessFn xs i j = Some True"

definition swapAt :: "Item list \<Rightarrow> nat \<Rightarrow> nat \<Rightarrow> Item list" where
  "swapAt xs i j = xs[i := xs ! j, j := xs ! i]"

text \<open>
  \<open>insertionSort_func(data, a, b)\<close>:
  \<open>for i := a + 1; i < b; i++ { for j := i; j > a && data.Less(j, j-1); j-- { data.Swap(j, j-1) } }\<close>.
\<close>

function insertionSortInner :: "lessFunc \<Rightarrow> nat \<Rightarrow> nat \<Rightarrow> Item list \<Rightarrow> Item list" where
  "insertionSortInner lessFn a j xs =
     (if j > a \<and> lessAt lessFn xs j (j - 1)
      then insertionSortInner lessFn a (j - 1) (swapAt xs j (j - 1))
      else xs)"
  by pat_completeness auto
termination
  by (relation "measure (\<lambda>(lessFn, a, j, xs). j)") auto

declare insertionSortInner.simps [simp del]

function insertionSortOuter :: "lessFunc \<Rightarrow> nat \<Rightarrow> nat \<Rightarrow> nat \<Rightarrow> Item list \<Rightarrow> Item list" where
  "insertionSortOuter lessFn a b i xs =
     (if i < b then insertionSortOuter lessFn a b (i + 1) (insertionSortInner lessFn a i xs)
      else xs)"
  by pat_completeness auto
termination
  by (relation "measure (\<lambda>(lessFn, a, b, i, xs). b - i)") auto

declare insertionSortOuter.simps [simp del]

definition insertionSort_func :: "lessFunc \<Rightarrow> nat \<Rightarrow> nat \<Rightarrow> Item list \<Rightarrow> Item list" where
  "insertionSort_func lessFn a b xs = insertionSortOuter lessFn a b (a + 1) xs"

text \<open>
  \<open>siftDown_func(data, lo, hi, first)\<close> and \<open>heapSort_func(data, a, b)\<close>: build a heap with
  the greatest element on top (\<open>for i := (hi - 1) / 2; i >= 0; i--\<close>), then pop the elements
  into the end of the range (\<open>for i := hi - 1; i >= 0; i--\<close>).
\<close>

function siftDown_func :: "lessFunc \<Rightarrow> nat \<Rightarrow> nat \<Rightarrow> nat \<Rightarrow> Item list \<Rightarrow> Item list" where
  "siftDown_func lessFn root hi first xs =
     (let child = 2 * root + 1 in
      if child \<ge> hi then xs
      else
        let child1 = (if child + 1 < hi \<and> lessAt lessFn xs (first + child) (first + child + 1)
                      then child + 1 else child)
        in if \<not> lessAt lessFn xs (first + root) (first + child1) then xs
           else siftDown_func lessFn child1 hi first (swapAt xs (first + root) (first + child1)))"
  by pat_completeness auto
termination
  by (relation "measure (\<lambda>(lessFn, root, hi, first, xs). hi - root)") (auto simp: Let_def)

declare siftDown_func.simps [simp del]

fun heapSortBuild :: "lessFunc \<Rightarrow> nat \<Rightarrow> nat \<Rightarrow> nat \<Rightarrow> Item list \<Rightarrow> Item list" where
  "heapSortBuild lessFn hi first 0 xs = siftDown_func lessFn 0 hi first xs"
| "heapSortBuild lessFn hi first (Suc i) xs =
     heapSortBuild lessFn hi first i (siftDown_func lessFn (Suc i) hi first xs)"

fun heapSortPop :: "lessFunc \<Rightarrow> nat \<Rightarrow> nat \<Rightarrow> Item list \<Rightarrow> Item list" where
  "heapSortPop lessFn first 0 xs = siftDown_func lessFn 0 0 first (swapAt xs first first)"
| "heapSortPop lessFn first (Suc i) xs =
     heapSortPop lessFn first i (siftDown_func lessFn 0 (Suc i) first (swapAt xs first (first + Suc i)))"

definition heapSort_func :: "lessFunc \<Rightarrow> nat \<Rightarrow> nat \<Rightarrow> Item list \<Rightarrow> Item list" where
  "heapSort_func lessFn a b xs =
     (let first = a; hi = b - a;
          xs1 = heapSortBuild lessFn hi first ((hi - 1) div 2) xs
      in if hi = 0 then xs1 else heapSortPop lessFn first (hi - 1) xs1)"

text \<open>
  \<open>partition_func(data, a, b, pivot)\<close> moves the pivot to \<open>a\<close>, then lets \<open>i\<close> run up over
  the elements before the pivot (\<open>for i <= j && data.Less(i, a) { i++ }\<close>) and \<open>j\<close> run down
  over the others (\<open>for i <= j && !data.Less(j, a) { j-- }\<close>), exchanging the two elements
  they stop at, until they cross; the pivot then goes to \<open>j\<close>. It returns \<open>j\<close> and whether
  the range was partitioned already.
\<close>

function partitionUp :: "lessFunc \<Rightarrow> Item list \<Rightarrow> nat \<Rightarrow> int \<Rightarrow> int \<Rightarrow> int" where
  "partitionUp lessFn xs a i j =
     (if i \<le> j \<and> lessAt lessFn xs (nat i) a then partitionUp lessFn xs a (i + 1) j else i)"
  by pat_completeness auto
termination
  by (relation "measure (\<lambda>(lessFn, xs, a, i, j). nat (j + 1 - i))") auto

declare partitionUp.simps [simp del]

function partitionDown :: "lessFunc \<Rightarrow> Item list \<Rightarrow> nat \<Rightarrow> int \<Rightarrow> int \<Rightarrow> int" where
  "partitionDown lessFn xs a i j =
     (if i \<le> j \<and> \<not> lessAt lessFn xs (nat j) a then partitionDown lessFn xs a i (j - 1) else j)"
  by pat_completeness auto
termination
  by (relation "measure (\<lambda>(lessFn, xs, a, i, j). nat (j + 1 - i))") auto

declare partitionDown.simps [simp del]

text \<open>The two indices stay within the range; the loop of exchanges ends for that reason.\<close>

lemma partitionUp_ge: "i \<le> partitionUp lessFn xs a i j"
  by (induction lessFn xs a i j rule: partitionUp.induct)
     (subst partitionUp.simps, auto)

lemma partitionUp_le: "partitionUp lessFn xs a i j \<le> max i (j + 1)"
  by (induction lessFn xs a i j rule: partitionUp.induct)
     (subst partitionUp.simps, auto)

lemma partitionDown_le: "partitionDown lessFn xs a i j \<le> j"
  by (induction lessFn xs a i j rule: partitionDown.induct)
     (subst partitionDown.simps, auto)

lemma partitionDown_ge: "min j (i - 1) \<le> partitionDown lessFn xs a i j"
  by (induction lessFn xs a i j rule: partitionDown.induct)
     (subst partitionDown.simps, auto)

function partitionLoop :: "lessFunc \<Rightarrow> nat \<Rightarrow> int \<Rightarrow> int \<Rightarrow> Item list \<Rightarrow> int \<times> Item list" where
  "partitionLoop lessFn a i j xs =
     (let i1 = partitionUp lessFn xs a i j;
          j1 = partitionDown lessFn xs a i1 j
      in if i1 > j1 then (j1, xs)
         else partitionLoop lessFn a (i1 + 1) (j1 - 1) (swapAt xs (nat i1) (nat j1)))"
  by pat_completeness auto
termination
proof (relation "measure (\<lambda>(lessFn, a, i, j, xs). nat (j + 1 - i))", goal_cases)
  case 1
  show ?case by simp
next
  case (2 lessFn a i j xs i1 j1)
  then show ?case
    using partitionUp_ge [of i lessFn xs a j] partitionDown_le [of lessFn xs a i1 j]
    by auto
qed

declare partitionLoop.simps [simp del]

definition partition_func ::
  "lessFunc \<Rightarrow> nat \<Rightarrow> nat \<Rightarrow> nat \<Rightarrow> Item list \<Rightarrow> nat \<times> bool \<times> Item list" where
  "partition_func lessFn a b pivot xs =
     (let xs1 = swapAt xs a pivot;
          i = partitionUp lessFn xs1 a (int a + 1) (int b - 1);
          j = partitionDown lessFn xs1 a i (int b - 1)
      in if i > j then (nat j, True, swapAt xs1 (nat j) a)
         else
           let (j2, xs2) = partitionLoop lessFn a (i + 1) (j - 1) (swapAt xs1 (nat i) (nat j))
           in (nat j2, False, swapAt xs2 (nat j2) a))"

text \<open>
  \<open>partitionEqual_func(data, a, b, pivot)\<close>: the elements equal to the pivot first, the
  greater ones after them; it returns the index where the greater ones start.
\<close>

function partitionEqualUp :: "lessFunc \<Rightarrow> Item list \<Rightarrow> nat \<Rightarrow> int \<Rightarrow> int \<Rightarrow> int" where
  "partitionEqualUp lessFn xs a i j =
     (if i \<le> j \<and> \<not> lessAt lessFn xs a (nat i) then partitionEqualUp lessFn xs a (i + 1) j else i)"
  by pat_completeness auto
termination
  by (relation "measure (\<lambda>(lessFn, xs, a, i, j). nat (j + 1 - i))") auto

declare partitionEqualUp.simps [simp del]

function partitionEqualDown :: "lessFunc \<Rightarrow> Item list \<Rightarrow> nat \<Rightarrow> int \<Rightarrow> int \<Rightarrow> int" where
  "partitionEqualDown lessFn xs a i j =
     (if i \<le> j \<and> lessAt lessFn xs a (nat j) then partitionEqualDown lessFn xs a i (j - 1) else j)"
  by pat_completeness auto
termination
  by (relation "measure (\<lambda>(lessFn, xs, a, i, j). nat (j + 1 - i))") auto

declare partitionEqualDown.simps [simp del]

lemma partitionEqualUp_ge: "i \<le> partitionEqualUp lessFn xs a i j"
  by (induction lessFn xs a i j rule: partitionEqualUp.induct)
     (subst partitionEqualUp.simps, auto)

lemma partitionEqualDown_le: "partitionEqualDown lessFn xs a i j \<le> j"
  by (induction lessFn xs a i j rule: partitionEqualDown.induct)
     (subst partitionEqualDown.simps, auto)

function partitionEqualLoop :: "lessFunc \<Rightarrow> nat \<Rightarrow> int \<Rightarrow> int \<Rightarrow> Item list \<Rightarrow> int \<times> Item list" where
  "partitionEqualLoop lessFn a i j xs =
     (let i1 = partitionEqualUp lessFn xs a i j;
          j1 = partitionEqualDown lessFn xs a i1 j
      in if i1 > j1 then (i1, xs)
         else partitionEqualLoop lessFn a (i1 + 1) (j1 - 1) (swapAt xs (nat i1) (nat j1)))"
  by pat_completeness auto
termination
proof (relation "measure (\<lambda>(lessFn, a, i, j, xs). nat (j + 1 - i))", goal_cases)
  case 1
  show ?case by simp
next
  case (2 lessFn a i j xs i1 j1)
  then show ?case
    using partitionEqualUp_ge [of i lessFn xs a j] partitionEqualDown_le [of lessFn xs a i1 j]
    by auto
qed

declare partitionEqualLoop.simps [simp del]

definition partitionEqual_func ::
  "lessFunc \<Rightarrow> nat \<Rightarrow> nat \<Rightarrow> nat \<Rightarrow> Item list \<Rightarrow> nat \<times> Item list" where
  "partitionEqual_func lessFn a b pivot xs =
     (let (i, xs1) = partitionEqualLoop lessFn a (int a + 1) (int b - 1) (swapAt xs a pivot)
      in (nat i, xs1))"

text \<open>
  \<open>partialInsertionSort_func(data, a, b)\<close>: at most five times, skip the elements that are
  in order; at the end of the range the slice is sorted; on a range shorter than 50 give
  up; otherwise exchange the pair found out of order and shift its two elements into
  place.
\<close>

function partialScan :: "lessFunc \<Rightarrow> Item list \<Rightarrow> nat \<Rightarrow> nat \<Rightarrow> nat" where
  "partialScan lessFn xs b i =
     (if i < b \<and> \<not> lessAt lessFn xs i (i - 1) then partialScan lessFn xs b (i + 1) else i)"
  by pat_completeness auto
termination
  by (relation "measure (\<lambda>(lessFn, xs, b, i). b - i)") auto

declare partialScan.simps [simp del]

function shiftLeft :: "lessFunc \<Rightarrow> nat \<Rightarrow> Item list \<Rightarrow> Item list" where
  "shiftLeft lessFn j xs =
     (if j \<ge> 1 then
        (if \<not> lessAt lessFn xs j (j - 1) then xs
         else shiftLeft lessFn (j - 1) (swapAt xs j (j - 1)))
      else xs)"
  by pat_completeness auto
termination
  by (relation "measure (\<lambda>(lessFn, j, xs). j)") auto

declare shiftLeft.simps [simp del]

function shiftRight :: "lessFunc \<Rightarrow> nat \<Rightarrow> nat \<Rightarrow> Item list \<Rightarrow> Item list" where
  "shiftRight lessFn b j xs =
     (if j < b then
        (if \<not> lessAt lessFn xs j (j - 1) then xs
         else shiftRight lessFn b (j + 1) (swapAt xs j (j - 1)))
      else xs)"
  by pat_completeness auto
termination
  by (relation "measure (\<lambda>(lessFn, b, j, xs). b - j)") auto

declare shiftRight.simps [simp del]

fun partialInsertionSortLoop ::
  "lessFunc \<Rightarrow> nat \<Rightarrow> nat \<Rightarrow> nat \<Rightarrow> nat \<Rightarrow> Item list \<Rightarrow> bool \<times> Item list" where
  "partialInsertionSortLoop lessFn a b 0 i xs = (False, xs)"
| "partialInsertionSortLoop lessFn a b (Suc steps) i xs =
     (let i1 = partialScan lessFn xs b i in
      if i1 = b then (True, xs)
      else if b - a < 50 then (False, xs)
      else
        let xs1 = swapAt xs i1 (i1 - 1);
            xs2 = (if i1 - a \<ge> 2 then shiftLeft lessFn (i1 - 1) xs1 else xs1);
            xs3 = (if b - i1 \<ge> 2 then shiftRight lessFn b (i1 + 1) xs2 else xs2)
        in partialInsertionSortLoop lessFn a b steps i1 xs3)"

definition partialInsertionSort_func ::
  "lessFunc \<Rightarrow> nat \<Rightarrow> nat \<Rightarrow> Item list \<Rightarrow> bool \<times> Item list" where
  "partialInsertionSort_func lessFn a b xs = partialInsertionSortLoop lessFn a b 5 (a + 1) xs"

text \<open>\<open>reverseRange_func(data, a, b)\<close>.\<close>

function reverseRangeLoop :: "nat \<Rightarrow> nat \<Rightarrow> Item list \<Rightarrow> Item list" where
  "reverseRangeLoop i j xs =
     (if i < j then reverseRangeLoop (i + 1) (j - 1) (swapAt xs i j) else xs)"
  by pat_completeness auto
termination
  by (relation "measure (\<lambda>(i, j, xs). j - i)") auto

declare reverseRangeLoop.simps [simp del]

definition reverseRange_func :: "nat \<Rightarrow> nat \<Rightarrow> Item list \<Rightarrow> Item list" where
  "reverseRange_func a b xs = reverseRangeLoop a (b - 1) xs"

text \<open>
  \<open>choosePivot_func(data, a, b)\<close>: on fewer than 8 elements the middle one of three fixed
  positions, on fewer than 50 the median of the three, otherwise the median of the
  medians of their neighbourhoods; the number of exchanges the medians needed becomes
  the hint. It does not move any element.
\<close>

datatype sortedHint = unknownHint | increasingHint | decreasingHint

definition order2_func :: "lessFunc \<Rightarrow> Item list \<Rightarrow> nat \<Rightarrow> nat \<Rightarrow> nat \<Rightarrow> (nat \<times> nat) \<times> nat" where
  "order2_func lessFn xs a b swaps =
     (if lessAt lessFn xs b a then ((b, a), swaps + 1) else ((a, b), swaps))"

definition median_func :: "lessFunc \<Rightarrow> Item list \<Rightarrow> nat \<Rightarrow> nat \<Rightarrow> nat \<Rightarrow> nat \<Rightarrow> nat \<times> nat" where
  "median_func lessFn xs a b c swaps =
     (let ((a1, b1), s1) = order2_func lessFn xs a b swaps;
          ((b2, c2), s2) = order2_func lessFn xs b1 c s1;
          ((a3, b3), s3) = order2_func lessFn xs a1 b2 s2
      in (b3, s3))"

definition medianAdjacent_func :: "lessFunc \<Rightarrow> Item list \<Rightarrow> nat \<Rightarrow> nat \<Rightarrow> nat \<times> nat" where
  "medianAdjacent_func lessFn xs a swaps = median_func lessFn xs (a - 1) a (a + 1) swaps"

definition choosePivot_func :: "lessFunc \<Rightarrow> Item list \<Rightarrow> nat \<Rightarrow> nat \<Rightarrow> nat \<times> sortedHint" where
  "choosePivot_func lessFn xs a b =
     (let l = b - a;
          i = a + l div 4 * 1;
          j = a + l div 4 * 2;
          k = a + l div 4 * 3;
          (j3, swaps) =
            (if l \<ge> 8 then
               let (i1, j1, k1, s3) =
                     (if l \<ge> 50 then
                        let (i0, s0) = medianAdjacent_func lessFn xs i 0;
                            (j0, s1) = medianAdjacent_func lessFn xs j s0;
                            (k0, s2) = medianAdjacent_func lessFn xs k s1
                        in (i0, j0, k0, s2)
                      else (i, j, k, 0))
               in median_func lessFn xs i1 j1 k1 s3
             else (j, 0))
      in if swaps = 0 then (j3, increasingHint)
         else if swaps = 12 then (j3, decreasingHint)
         else (j3, unknownHint))"

text \<open>
  \<open>bits.Len(n)\<close>, and \<open>breakPatterns_func(data, a, b)\<close>: three exchanges around the middle of
  the range, at positions drawn from a pseudo-random generator seeded with the length of
  the range. The generator's step \<open>next\<close> is a parameter.
\<close>

function bitsLen :: "nat \<Rightarrow> nat" where
  "bitsLen n = (if n = 0 then 0 else 1 + bitsLen (n div 2))"
  by pat_completeness auto
termination
  by (relation "measure id") auto

declare bitsLen.simps [simp del]

definition breakPatterns_func ::
  "(64 word \<Rightarrow> 64 word) \<Rightarrow> nat \<Rightarrow> nat \<Rightarrow> Item list \<Rightarrow> Item list" where
  "breakPatterns_func next a b xs =
     (let length = b - a in
      if length \<ge> 8 then
        let random0 = (word_of_nat length :: 64 word);
            modulus = (2 ^ bitsLen length :: 64 word);
            idx = a + (length div 4) * 2 - 1;
            random1 = next random0;
            other1 = unat (random1 AND (modulus - 1));
            other1 = (if other1 \<ge> length then other1 - length else other1);
            xs1 = swapAt xs (idx - 1 + 0) (a + other1);
            random2 = next random1;
            other2 = unat (random2 AND (modulus - 1));
            other2 = (if other2 \<ge> length then other2 - length else other2);
            xs2 = swapAt xs1 (idx - 1 + 1) (a + other2);
            random3 = next random2;
            other3 = unat (random3 AND (modulus - 1));
            other3 = (if other3 \<ge> length then other3 - length else other3)
        in swapAt xs2 (idx - 1 + 2) (a + other3)
      else xs)"

text \<open>
  The index a partition returns lies within the range, so that every range
  \<open>pdqsort_func\<close> goes on with is shorter than the one it came from.
\<close>

lemma partitionLoop_bounds:
  "fst (partitionLoop lessFn a i j xs) \<le> j \<and> min j (i - 1) \<le> fst (partitionLoop lessFn a i j xs)"
proof (induction lessFn a i j xs rule: partitionLoop.induct)
  case (1 lessFn a i j xs)
  define i1 where "i1 = partitionUp lessFn xs a i j"
  define j1 where "j1 = partitionDown lessFn xs a i1 j"
  have b: "i \<le> i1" "j1 \<le> j" "min j (i1 - 1) \<le> j1"
    unfolding i1_def j1_def
    by (rule partitionUp_ge partitionDown_le partitionDown_ge)+
  show ?case
  proof (cases "i1 > j1")
    case True
    then have "partitionLoop lessFn a i j xs = (j1, xs)"
      by (subst partitionLoop.simps) (simp add: i1_def j1_def Let_def)
    with b show ?thesis by auto
  next
    case False
    then have eq: "partitionLoop lessFn a i j xs =
        partitionLoop lessFn a (i1 + 1) (j1 - 1) (swapAt xs (nat i1) (nat j1))"
      by (subst partitionLoop.simps) (simp add: i1_def j1_def Let_def)
    from "1.IH" [OF i1_def j1_def False] b False show ?thesis
      unfolding eq by auto
  qed
qed

lemma partition_func_bounds:
  assumes "a < b"
  shows "a \<le> fst (partition_func lessFn a b pivot xs) \<and> fst (partition_func lessFn a b pivot xs) < b"
proof -
  define xs1 where "xs1 = swapAt xs a pivot"
  define i where "i = partitionUp lessFn xs1 a (int a + 1) (int b - 1)"
  define j where "j = partitionDown lessFn xs1 a i (int b - 1)"
  have b: "int a + 1 \<le> i" "j \<le> int b - 1" "min (int b - 1) (i - 1) \<le> j"
    unfolding i_def j_def
    by (rule partitionUp_ge partitionDown_le partitionDown_ge)+
  show ?thesis
  proof (cases "i > j")
    case True
    then have "fst (partition_func lessFn a b pivot xs) = nat j"
      by (simp add: partition_func_def Let_def xs1_def i_def j_def)
    with b assms show ?thesis by auto
  next
    case False
    define r where "r = partitionLoop lessFn a (i + 1) (j - 1) (swapAt xs1 (nat i) (nat j))"
    from False have "fst (partition_func lessFn a b pivot xs) = nat (fst r)"
      by (simp add: partition_func_def Let_def xs1_def i_def j_def r_def split_def)
    moreover have "fst r \<le> j - 1 \<and> min (j - 1) (i + 1 - 1) \<le> fst r"
      unfolding r_def by (rule partitionLoop_bounds)
    ultimately show ?thesis
      using b False assms by auto
  qed
qed

lemma partitionEqualLoop_ge: "i \<le> fst (partitionEqualLoop lessFn a i j xs)"
proof (induction lessFn a i j xs rule: partitionEqualLoop.induct)
  case (1 lessFn a i j xs)
  define i1 where "i1 = partitionEqualUp lessFn xs a i j"
  define j1 where "j1 = partitionEqualDown lessFn xs a i1 j"
  have b: "i \<le> i1"
    unfolding i1_def by (rule partitionEqualUp_ge)
  show ?case
  proof (cases "i1 > j1")
    case True
    then have "partitionEqualLoop lessFn a i j xs = (i1, xs)"
      by (subst partitionEqualLoop.simps) (simp add: i1_def j1_def Let_def)
    with b show ?thesis by auto
  next
    case False
    then have eq: "partitionEqualLoop lessFn a i j xs =
        partitionEqualLoop lessFn a (i1 + 1) (j1 - 1) (swapAt xs (nat i1) (nat j1))"
      by (subst partitionEqualLoop.simps) (simp add: i1_def j1_def Let_def)
    from "1.IH" [OF i1_def j1_def False] b show ?thesis
      unfolding eq by auto
  qed
qed

lemma partitionEqual_func_gt: "a < fst (partitionEqual_func lessFn a b pivot xs)"
  using partitionEqualLoop_ge [of "int a + 1" lessFn a "int b - 1" "swapAt xs a pivot"]
  by (simp add: partitionEqual_func_def split_def Let_def)

text \<open>
  \<open>pdqsort_func(data, a, b, limit)\<close>. One round of its loop up to the partition:
  \<open>breakPatterns_func\<close> after an unbalanced partition, the pivot and its hint, the
  reversal of a range that looks decreasing, and \<open>partialInsertionSort_func\<close> on a range
  that looks increasing. The result says whether the range is sorted by now, and gives
  the data, the pivot and the limit.
\<close>

definition pdqsortPrepare ::
  "(64 word \<Rightarrow> 64 word) \<Rightarrow> lessFunc \<Rightarrow> Item list \<Rightarrow> nat \<Rightarrow> nat \<Rightarrow> nat \<Rightarrow> bool \<Rightarrow> bool \<Rightarrow>
     bool \<times> Item list \<times> nat \<times> nat" where
  "pdqsortPrepare next lessFn xs a b limit wasBalanced wasPartitioned =
     (let xs1 = (if \<not> wasBalanced then breakPatterns_func next a b xs else xs);
          limit1 = (if \<not> wasBalanced then limit - 1 else limit);
          (pivot0, hint0) = choosePivot_func lessFn xs1 a b;
          xs2 = (if hint0 = decreasingHint then reverseRange_func a b xs1 else xs1);
          pivot = (if hint0 = decreasingHint then (b - 1) - (pivot0 - a) else pivot0);
          hint = (if hint0 = decreasingHint then increasingHint else hint0)
      in
      if wasBalanced \<and> wasPartitioned \<and> hint = increasingHint then
        let (rangeSorted, xs3) = partialInsertionSort_func lessFn a b xs2
        in (rangeSorted, xs3, pivot, limit1)
      else (False, xs2, pivot, limit1))"

text \<open>
  The loop itself. \<open>wasBalanced\<close> and \<open>wasPartitioned\<close> are the loop's two flags, true on
  entry; the shorter side of a partition is sorted by a call, the longer side by the
  next round.
\<close>

function pdqsort_func ::
  "(64 word \<Rightarrow> 64 word) \<Rightarrow> lessFunc \<Rightarrow> Item list \<Rightarrow> nat \<Rightarrow> nat \<Rightarrow> nat \<Rightarrow> bool \<Rightarrow> bool \<Rightarrow> Item list" where
  "pdqsort_func next lessFn xs a b limit wasBalanced wasPartitioned =
     (if b - a \<le> 12 then insertionSort_func lessFn a b xs
      else if limit = 0 then heapSort_func lessFn a b xs
      else
        case pdqsortPrepare next lessFn xs a b limit wasBalanced wasPartitioned of
          (rangeSorted, xs3, pivot, limit1) \<Rightarrow>
        if rangeSorted then xs3
        else if a > 0 \<and> \<not> lessAt lessFn xs3 (a - 1) pivot then
          (case partitionEqual_func lessFn a b pivot xs3 of
             (mid, xs4) \<Rightarrow>
               pdqsort_func next lessFn xs4 mid b limit1 wasBalanced wasPartitioned)
        else
          (case partition_func lessFn a b pivot xs3 of
             (mid, alreadyPartitioned, xs4) \<Rightarrow>
               if mid - a < b - mid then
                 pdqsort_func next lessFn (pdqsort_func next lessFn xs4 a mid limit1 True True)
                   (mid + 1) b limit1 (mid - a \<ge> (b - a) div 8) alreadyPartitioned
               else
                 pdqsort_func next lessFn (pdqsort_func next lessFn xs4 (mid + 1) b limit1 True True)
                   a mid limit1 (b - mid \<ge> (b - a) div 8) alreadyPartitioned))"
  by pat_completeness auto
termination
proof (relation "measure (\<lambda>(next, lessFn, xs, a, b, limit, wb, wp). b - a)", goal_cases)
  case 1
  show ?case by simp
next
  case (2 nxt lessFn xs a b limit wb wp x y xa ya xb yb xc yc)
  from 2(8) have "xc = fst (partitionEqual_func lessFn a b xb xa)"
    by (metis fst_conv)
  with partitionEqual_func_gt [of a lessFn b xb xa] 2(1) show ?case
    by auto
next
  case (3 nxt lessFn xs a b limit wb wp x y xa ya xb yb xc yc xd yd)
  from 3(8) have "xc = fst (partition_func lessFn a b xb xa)"
    by (metis fst_conv)
  moreover from 3(1) have "a < b"
    by simp
  ultimately show ?case
    using partition_func_bounds [of a b lessFn xb xa] by (simp; arith)
next
  case (4 nxt lessFn xs a b limit wb wp x y xa ya xb yb xc yc xd yd)
  from 4(8) have "xc = fst (partition_func lessFn a b xb xa)"
    by (metis fst_conv)
  moreover from 4(1) have "a < b"
    by simp
  ultimately show ?case
    using partition_func_bounds [of a b lessFn xb xa] by (simp; arith)
next
  case (5 nxt lessFn xs a b limit wb wp x y xa ya xb yb xc yc xd yd)
  from 5(8) have "xc = fst (partition_func lessFn a b xb xa)"
    by (metis fst_conv)
  moreover from 5(1) have "a < b"
    by simp
  ultimately show ?case
    using partition_func_bounds [of a b lessFn xb xa] by (simp; arith)
next
  case (6 nxt lessFn xs a b limit wb wp x y xa ya xb yb xc yc xd yd)
  from 6(8) have "xc = fst (partition_func lessFn a b xb xa)"
    by (metis fst_conv)
  moreover from 6(1) have "a < b"
    by simp
  ultimately show ?case
    using partition_func_bounds [of a b lessFn xb xa] by (simp; arith)
qed

declare pdqsort_func.simps [simp del]

text \<open>
  \<open>sort.Slice(x, less)\<close>: \<open>pdqsort_func(lessSwap{less, swap}, 0, length, bits.Len(uint(length)))\<close>.
\<close>

definition goSortSlice :: "(64 word \<Rightarrow> 64 word) \<Rightarrow> lessFunc \<Rightarrow> Item list \<Rightarrow> Item list" where
  "goSortSlice next lessFn xs =
     pdqsort_func next lessFn xs 0 (length xs) (bitsLen (length xs)) True True"


section \<open>Notions the properties are stated with\<close>

text \<open>The filter criterion in the spec's words: same host value, or same ip.\<close>

definition hostMatches :: "Host \<Rightarrow> Item \<Rightarrow> bool" where
  "hostMatches host e \<longleftrightarrow> Value (Host e) = Value host \<or> Ip (Host e) = Ip host"

text \<open>
  The contract of \<open>sort.Slice\<close>, from its documentation, for slices of \<open>n\<close> elements:
  given a \<open>less\<close> that describes a strict weak ordering of the elements, it leaves the
  slice holding the same elements, none of them strictly before an element placed ahead
  of it. The documentation adds that the sort is not guaranteed to be stable, so the
  contract says nothing on the order of elements that \<open>less\<close> does not tell apart.
  \<open>byElems lt\<close> is a \<open>less\<close> closure that compares the elements at two indices by \<open>lt\<close>.
\<close>

definition byElems :: "(Item \<Rightarrow> Item \<Rightarrow> bool) \<Rightarrow> Item list \<Rightarrow> nat \<Rightarrow> nat \<Rightarrow> bool option" where
  "byElems lt cur i j =
     (if i < length cur \<and> j < length cur then Some (lt (cur ! i) (cur ! j)) else None)"

definition strictWeakOrder :: "(Item \<Rightarrow> Item \<Rightarrow> bool) \<Rightarrow> bool" where
  "strictWeakOrder lt \<longleftrightarrow>
     (\<forall>a. \<not> lt a a) \<and>
     (\<forall>a b c. lt a b \<and> lt b c \<longrightarrow> lt a c) \<and>
     (\<forall>a b c. \<not> lt a b \<and> \<not> lt b a \<and> \<not> lt b c \<and> \<not> lt c b \<longrightarrow> \<not> lt a c \<and> \<not> lt c a)"

definition sortSliceSpec ::
  "((Item list \<Rightarrow> nat \<Rightarrow> nat \<Rightarrow> bool option) \<Rightarrow> Item list \<Rightarrow> Item list) \<Rightarrow> nat \<Rightarrow> bool" where
  "sortSliceSpec srt n \<longleftrightarrow>
     (\<forall>lt xs. strictWeakOrder lt \<and> length xs = n \<longrightarrow>
        mset (srt (byElems lt) xs) = mset xs \<and>
        sorted_wrt (\<lambda>a b. \<not> lt b a) (srt (byElems lt) xs))"

section \<open>Concrete inputs\<close>

text \<open>
  A recorded item with host value \<open>h\<close>, path \<open>p\<close>, method \<open>m\<close> and a body of \<open>n\<close> zero
  bytes, recorded from ip 10.0.0.1 over HTTP/1.1 with no port in the URL; the comparison
  context of a request for path \<open>p\<close> with method \<open>m\<close> and a body of \<open>n\<close> zero bytes; that
  request, sent to host foo from 10.0.0.1; a body stream of \<open>n\<close> zero bytes that ends
  with EOF or with the error \<open>err\<close>; a runtime that doubles capacities and sorts with the
  library's \<open>sort.Slice\<close>, its pattern breaker drawing from an xorshift generator with
  shifts 13, 7 and 17; a world whose history holds \<open>items\<close> in an array without room to
  spare.
\<close>

definition exItem :: "string \<Rightarrow> string \<Rightarrow> string \<Rightarrow> nat \<Rightarrow> Item" where
  "exItem h p m n =
     \<lparr>Host = \<lparr>Value = h, Ip = ''10.0.0.1''\<rparr>, Port = [], Protocol = ''HTTP/1.1'',
      Method = m, Path = p, RequestValue = replicate n 0, ResponseValue = []\<rparr>"

definition exArgs :: "string \<Rightarrow> string \<Rightarrow> nat \<Rightarrow> compareArgs" where
  "exArgs p m n =
     \<lparr>argsRequest = replicate n 0, argsHost = \<lparr>Value = ''foo'', Ip = ''10.0.0.1''\<rparr>,
      argsPort = [], argsProtocol = ''HTTP/1.1'', argsMethod = m, argsPath = p\<rparr>"

definition exRequest :: "string \<Rightarrow> string \<Rightarrow> httpRequest" where
  "exRequest p m =
     \<lparr>reqHost = ''foo'', reqRemoteAddr = ''10.0.0.1:5555'', reqHeader = (\<lambda>k. None),
      reqMethod = m, reqProto = ''HTTP/1.1'', reqURLPort = [], reqURLEscapedPath = p\<rparr>"

definition exBody :: "nat \<Rightarrow> string option \<Rightarrow> bodyStream" where
  "exBody n err = \<lparr>unread = replicate n 0, fault = err, readAlls = 0\<rparr>"

definition xorshiftNext :: "64 word \<Rightarrow> 64 word" where
  "xorshiftNext r =
     (let r1 = r XOR push_bit 13 r;
          r2 = r1 XOR drop_bit 7 r1
      in r2 XOR push_bit 17 r2)"

definition exRuntime :: runtime where
  "exRuntime = \<lparr>growslice = (\<lambda>c. 2 * c), sortSlice = goSortSlice xorshiftNext\<rparr>"

definition exWorld :: "Item list \<Rightarrow> bodyStream \<Rightarrow> world" where
  "exWorld items b =
     \<lparr>arrays = [items], responseHistory = \<lparr>Data = 0, Len = length items, Cap = length items\<rparr>,
      stderr = [], reqBody = b\<rparr>"

text \<open>
  An item that differs from its neighbours in the host only; a history of four of them,
  of which a request to host foo from 10.0.0.1 matches the first by both, the second by
  ip, the fourth by value and the third by neither; and five candidates for a GET of /x
  with a body of 100 bytes.
\<close>

definition exHostItem :: "string \<Rightarrow> string \<Rightarrow> Item" where
  "exHostItem h ip =
     \<lparr>Host = \<lparr>Value = h, Ip = ip\<rparr>, Port = [], Protocol = ''HTTP/1.1'',
      Method = ''GET'', Path = ''/x'', RequestValue = [], ResponseValue = []\<rparr>"

definition exHistory :: "Item list" where
  "exHistory = [exHostItem ''foo'' ''10.0.0.1'', exHostItem ''bar'' ''10.0.0.1'',
     exHostItem ''baz'' ''10.9.9.9'', exHostItem ''foo'' ''10.9.9.9'']"

definition exCandidates :: "Item list" where
  "exCandidates = [exItem ''foo'' ''/x'' ''GET'' 50, exItem ''foo'' ''/x'' ''POST'' 95,
     exItem ''foo'' ''/x'' ''POST'' 105, exItem ''foo'' ''/x'' ''POST'' 150,
     exItem ''bar'' ''/x'' ''POST'' 95]"

text \<open>
  Thirteen candidates for a GET of /x with an empty body. Twelve of them, recorded under
  the host names a to l, have bodies of five bytes and are not told apart by the
  comparator; the last one, recorded under foo, has the empty body of the request and is
  strictly better than each of the others. \<open>exThirteenSorted\<close> is the order in which the
  library's \<open>sort.Slice\<close> leaves them.
\<close>

definition exThirteen :: "Item list" where
  "exThirteen =
     [exItem ''a'' ''/x'' ''GET'' 5, exItem ''b'' ''/x'' ''GET'' 5, exItem ''c'' ''/x'' ''GET'' 5,
      exItem ''d'' ''/x'' ''GET'' 5, exItem ''e'' ''/x'' ''GET'' 5, exItem ''f'' ''/x'' ''GET'' 5,
      exItem ''g'' ''/x'' ''GET'' 5, exItem ''h'' ''/x'' ''GET'' 5, exItem ''i'' ''/x'' ''GET'' 5,
      exItem ''j'' ''/x'' ''GET'' 5, exItem ''k'' ''/x'' ''GET'' 5, exItem ''l'' ''/x'' ''GET'' 5,
      exItem ''foo'' ''/x'' ''GET'' 0]"

definition exThirteenSorted :: "Item list" where
  "exThirteenSorted =
     [exItem ''foo'' ''/x'' ''GET'' 0, exItem ''g'' ''/x'' ''GET'' 5, exItem ''c'' ''/x'' ''GET'' 5,
      exItem ''d'' ''/x'' ''GET'' 5, exItem ''e'' ''/x'' ''GET'' 5, exItem ''f'' ''/x'' ''GET'' 5,
      exItem ''a'' ''/x'' ''GET'' 5, exItem ''h'' ''/x'' ''GET'' 5, exItem ''i'' ''/x'' ''GET'' 5,
      exItem ''j'' ''/x'' ''GET'' 5, exItem ''k'' ''/x'' ''GET'' 5, exItem ''l'' ''/x'' ''GET'' 5,
      exItem ''b'' ''/x'' ''GET'' 5]"

section \<open>Properties of the comparator\<close>

lemma snd_longestPrefix: "snd (longestPrefix a b) = (a = b)"
  by (simp add: longestPrefix_def Let_def)

text \<open>The closure orders two candidates by their ranks, compared lexicographically.\<close>

lemma fuzzyComparer_rank:
  "i < length reqs \<Longrightarrow> j < length reqs \<Longrightarrow>
   fuzzyComparer reqs args i j = Some (rank args (reqs ! i) < rank args (reqs ! j))"
  unfolding fuzzyComparer_def rank_def bodyDistance_def snd_longestPrefix Let_def
  by auto

lemma fuzzyComparer_byElems:
  "(\<lambda>cur. fuzzyComparer cur args) = byElems (\<lambda>a b. rank args a < rank args b)"
  by (auto simp: fun_eq_iff byElems_def fuzzyComparer_rank) (simp_all add: fuzzyComparer_def)

lemma strictWeakOrder_rank: "strictWeakOrder (\<lambda>a b. rank args a < rank args b)"
  unfolding strictWeakOrder_def by (auto simp: not_less intro: order.trans)

text \<open>
  C2. When the path and the exact-body criteria do not tell two candidates apart and
  exactly one of them has the method of the context, that one is strictly better and the
  other is not, whatever the lengths of the bodies.
\<close>

theorem method_match_wins:
  assumes "i < length reqs" and "j < length reqs"
    and "(Path (reqs ! i) = argsPath args) = (Path (reqs ! j) = argsPath args)"
    and "(RequestValue (reqs ! i) = argsRequest args) = (RequestValue (reqs ! j) = argsRequest args)"
    and "Method (reqs ! i) = argsMethod args" and "Method (reqs ! j) \<noteq> argsMethod args"
  shows "fuzzyComparer reqs args i j = Some True \<and> fuzzyComparer reqs args j i = Some False"
  using assms by (simp add: fuzzyComparer_def snd_longestPrefix Let_def)

text \<open>
  At a concrete input: the context has method GET and a body of 100 bytes; the GET
  candidate's body is 50 bytes away, the POST candidate's only 5.
\<close>

theorem method_match_wins_witness:
  "fuzzyComparer [exItem ''foo'' ''/x'' ''GET'' 50, exItem ''foo'' ''/x'' ''POST'' 95]
      (exArgs ''/x'' ''GET'' 100) 0 1 = Some True \<and>
   fuzzyComparer [exItem ''foo'' ''/x'' ''GET'' 50, exItem ''foo'' ''/x'' ''POST'' 95]
      (exArgs ''/x'' ''GET'' 100) 1 0 = Some False"
  using method_match_wins
    [of 0 "[exItem ''foo'' ''/x'' ''GET'' 50, exItem ''foo'' ''/x'' ''POST'' 95]" 1
      "exArgs ''/x'' ''GET'' 100"]
  by (simp add: exItem_def exArgs_def)

text \<open>
  C3. For every context the closure is a strict weak ordering of the candidates in the
  slice: no candidate is strictly better than itself, strictly-better is transitive, and
  so is being told apart in neither direction.
\<close>

theorem fuzzyComparer_strict_weak_order:
  assumes "i < length reqs" and "j < length reqs" and "k < length reqs"
  shows "fuzzyComparer reqs args i i = Some False \<and>
    (fuzzyComparer reqs args i j = Some True \<and> fuzzyComparer reqs args j k = Some True \<longrightarrow>
       fuzzyComparer reqs args i k = Some True) \<and>
    (fuzzyComparer reqs args i j = Some False \<and> fuzzyComparer reqs args j i = Some False \<and>
     fuzzyComparer reqs args j k = Some False \<and> fuzzyComparer reqs args k j = Some False \<longrightarrow>
       fuzzyComparer reqs args i k = Some False \<and> fuzzyComparer reqs args k i = Some False)"
  using assms by (auto simp: fuzzyComparer_rank)

text \<open>
  Among \<open>exCandidates\<close>, candidate 0 beats 1, which beats 3; candidates 1, 2 and 4 are
  5 bytes away each and are not told apart.
\<close>

theorem fuzzyComparer_strict_weak_order_witness:
  "fuzzyComparer exCandidates (exArgs ''/x'' ''GET'' 100) 0 0 = Some False \<and>
   fuzzyComparer exCandidates (exArgs ''/x'' ''GET'' 100) 0 1 = Some True \<and>
   fuzzyComparer exCandidates (exArgs ''/x'' ''GET'' 100) 1 3 = Some True \<and>
   fuzzyComparer exCandidates (exArgs ''/x'' ''GET'' 100) 0 3 = Some True \<and>
   fuzzyComparer exCandidates (exArgs ''/x'' ''GET'' 100) 1 2 = Some False \<and>
   fuzzyComparer exCandidates (exArgs ''/x'' ''GET'' 100) 2 1 = Some False \<and>
   fuzzyComparer exCandidates (exArgs ''/x'' ''GET'' 100) 2 4 = Some False \<and>
   fuzzyComparer exCandidates (exArgs ''/x'' ''GET'' 100) 4 2 = Some False \<and>
   fuzzyComparer exCandidates (exArgs ''/x'' ''GET'' 100) 1 4 = Some False \<and>
   fuzzyComparer exCandidates (exArgs ''/x'' ''GET'' 100) 4 1 = Some False"
proof -
  have cmp: "fuzzyComparer exCandidates (exArgs ''/x'' ''GET'' 100) 0 1 = Some True"
    "fuzzyComparer exCandidates (exArgs ''/x'' ''GET'' 100) 1 3 = Some True"
    "fuzzyComparer exCandidates (exArgs ''/x'' ''GET'' 100) 1 2 = Some False"
    "fuzzyComparer exCandidates (exArgs ''/x'' ''GET'' 100) 2 1 = Some False"
    "fuzzyComparer exCandidates (exArgs ''/x'' ''GET'' 100) 2 4 = Some False"
    "fuzzyComparer exCandidates (exArgs ''/x'' ''GET'' 100) 4 2 = Some False"
    by (simp_all add: fuzzyComparer_def longestPrefix_def exCandidates_def exItem_def
        exArgs_def Let_def)
  have len: "0 < length exCandidates" "1 < length exCandidates" "2 < length exCandidates"
    "3 < length exCandidates" "4 < length exCandidates"
    by (simp_all add: exCandidates_def)
  from fuzzyComparer_strict_weak_order [OF len(1) len(2) len(4), of "exArgs ''/x'' ''GET'' 100"]
    fuzzyComparer_strict_weak_order [OF len(2) len(3) len(5), of "exArgs ''/x'' ''GET'' 100"]
    cmp
  show ?thesis by simp
qed

text \<open>
  C5. A candidate whose path is the path of the context is strictly better than one
  whose path is not, and the latter is not strictly better than the former, whatever
  their bodies, methods, protocols and ports.
\<close>

theorem path_match_wins:
  assumes "i < length reqs" and "j < length reqs"
    and "Path (reqs ! i) = argsPath args" and "Path (reqs ! j) \<noteq> argsPath args"
  shows "fuzzyComparer reqs args i j = Some True \<and> fuzzyComparer reqs args j i = Some False"
  using assms by (simp add: fuzzyComparer_def snd_longestPrefix Let_def)

text \<open>
  The request is a GET of /x; the item recorded for POST /x is ahead of the item recorded
  for GET /y.
\<close>

theorem path_match_wins_witness:
  "fuzzyComparer [exItem ''foo'' ''/x'' ''POST'' 0, exItem ''foo'' ''/y'' ''GET'' 0]
      (exArgs ''/x'' ''GET'' 0) 0 1 = Some True \<and>
   fuzzyComparer [exItem ''foo'' ''/x'' ''POST'' 0, exItem ''foo'' ''/y'' ''GET'' 0]
      (exArgs ''/x'' ''GET'' 0) 1 0 = Some False"
  using path_match_wins
    [of 0 "[exItem ''foo'' ''/x'' ''POST'' 0, exItem ''foo'' ''/y'' ''GET'' 0]" 1
      "exArgs ''/x'' ''GET'' 0"]
  by (simp add: exItem_def exArgs_def)

text \<open>
  C7. When none of the path, exact-body, method, protocol and port criteria tells two
  candidates apart, the first is strictly better exactly when the length of its body is
  closer to the length of the context's body.
\<close>

theorem fallback_body_distance:
  assumes "i < length reqs" and "j < length reqs"
    and "(Path (reqs ! i) = argsPath args) = (Path (reqs ! j) = argsPath args)"
    and "(RequestValue (reqs ! i) = argsRequest args) = (RequestValue (reqs ! j) = argsRequest args)"
    and "(Method (reqs ! i) = argsMethod args) = (Method (reqs ! j) = argsMethod args)"
    and "(Protocol (reqs ! i) = argsProtocol args) = (Protocol (reqs ! j) = argsProtocol args)"
    and "(Port (reqs ! i) = argsPort args) = (Port (reqs ! j) = argsPort args)"
  shows "fuzzyComparer reqs args i j =
     Some (\<bar>int (length (RequestValue (reqs ! i))) - int (length (argsRequest args))\<bar>
         < \<bar>int (length (RequestValue (reqs ! j))) - int (length (argsRequest args))\<bar>)"
  using assms by (simp add: fuzzyComparer_def snd_longestPrefix Let_def abs_if)

text \<open>
  The incoming body has 100 bytes; the candidate with 95 is ahead of the one with 150,
  and the one with 105 is ahead of the one with 50.
\<close>

theorem fallback_body_distance_witness:
  "fuzzyComparer [exItem ''foo'' ''/x'' ''GET'' 95, exItem ''foo'' ''/x'' ''GET'' 150]
      (exArgs ''/x'' ''GET'' 100) 0 1 = Some True \<and>
   fuzzyComparer [exItem ''foo'' ''/x'' ''GET'' 50, exItem ''foo'' ''/x'' ''GET'' 105]
      (exArgs ''/x'' ''GET'' 100) 0 1 = Some False \<and>
   fuzzyComparer [exItem ''foo'' ''/x'' ''GET'' 50, exItem ''foo'' ''/x'' ''GET'' 105]
      (exArgs ''/x'' ''GET'' 100) 1 0 = Some True"
  using fallback_body_distance
      [of 0 "[exItem ''foo'' ''/x'' ''GET'' 95, exItem ''foo'' ''/x'' ''GET'' 150]" 1
        "exArgs ''/x'' ''GET'' 100"]
    fallback_body_distance
      [of 0 "[exItem ''foo'' ''/x'' ''GET'' 50, exItem ''foo'' ''/x'' ''GET'' 105]" 1
        "exArgs ''/x'' ''GET'' 100"]
    fallback_body_distance
      [of 1 "[exItem ''foo'' ''/x'' ''GET'' 50, exItem ''foo'' ''/x'' ''GET'' 105]" 0
        "exArgs ''/x'' ''GET'' 100"]
  by (simp add: exItem_def exArgs_def)

section \<open>Slices and the heap\<close>

lemma length_elems: "wfSlice w s \<Longrightarrow> length (elems w s) = Len s"
  by (simp add: wfSlice_def elems_def)

lemma appendSlice_frame:
  assumes "appendSlice rt w s e = (s', w')" and "n0 \<le> Data s" and "n0 \<le> length (arrays w)"
  shows "n0 \<le> Data s' \<and> n0 \<le> length (arrays w') \<and> take n0 (arrays w') = take n0 (arrays w) \<and>
    responseHistory w' = responseHistory w \<and> stderr w' = stderr w \<and> reqBody w' = reqBody w"
  using assms by (auto simp: appendSlice_def Let_def split: if_splits)

lemma appendSlice_elems:
  assumes "appendSlice rt w s e = (s', w')" and "wfSlice w s"
  shows "wfSlice w' s' \<and> elems w' s' = elems w s @ [e]"
proof (cases "Len s < Cap s")
  case True
  with assms show ?thesis
    by (auto simp: appendSlice_def wfSlice_def elems_def take_Suc_conv_app_nth)
next
  case False
  with assms show ?thesis
    by (auto simp: appendSlice_def wfSlice_def elems_def Let_def nth_append)
qed

lemma nth_of_take_eq:
  "take n xs = take n ys \<Longrightarrow> a < n \<Longrightarrow> xs ! a = ys ! a"
  by (metis nth_take)

lemma wfSlice_frame:
  assumes "wfSlice w s" and "Data s < n0" and "take n0 (arrays w') = take n0 (arrays w)"
    and "n0 \<le> length (arrays w')"
  shows "wfSlice w' s \<and> elems w' s = elems w s"
proof -
  have "arrays w' ! Data s = arrays w ! Data s"
    using assms(2,3) by (rule nth_of_take_eq [rotated])
  with assms show ?thesis
    by (simp add: wfSlice_def elems_def)
qed

lemma filterByHostLoop_inv:
  assumes "filterByHostLoop rt lst host i (newlst, w) = (r, w')"
    and "wfSlice w lst" and "Data lst < n0" and "n0 \<le> length (arrays w)"
    and "n0 \<le> Data newlst" and "wfSlice w newlst"
  shows "wfSlice w' r \<and> n0 \<le> Data r \<and> n0 \<le> length (arrays w') \<and>
     take n0 (arrays w') = take n0 (arrays w) \<and>
     elems w' r = elems w newlst @ filter (hostMatches host) (drop i (elems w lst)) \<and>
     responseHistory w' = responseHistory w \<and> stderr w' = stderr w \<and> reqBody w' = reqBody w"
  using assms
proof (induction rt lst host i "(newlst, w)" arbitrary: newlst w rule: filterByHostLoop.induct)
  case (1 rt lst host i newlst w)
  show ?case
  proof (cases "i < Len lst")
    case False
    with "1.prems" show ?thesis
      by (simp add: filterByHostLoop.simps [of rt lst host i] elems_def)
  next
    case True
    define e where "e = arrays w ! Data lst ! i"
    have len: "length (elems w lst) = Len lst"
      using "1.prems"(2) by (rule length_elems)
    have e_nth: "elems w lst ! i = e"
      using True by (simp add: elems_def e_def)
    have drop_i: "drop i (elems w lst) = e # drop (i + 1) (elems w lst)"
      using Cons_nth_drop_Suc [of i "elems w lst"] True len e_nth by simp
    have step: "filterByHostLoop rt lst host i (newlst, w) =
        filterByHostLoop rt lst host (i + 1)
          (if Value (Host e) = Value host \<or> Ip (Host e) = Ip host
           then appendSlice rt w newlst e else (newlst, w))"
      using True by (subst filterByHostLoop.simps) (simp add: e_def Let_def)
    show ?thesis
    proof (cases "hostMatches host e")
      case False
      then have next_state: "(if Value (Host e) = Value host \<or> Ip (Host e) = Ip host
          then appendSlice rt w newlst e else (newlst, w)) = (newlst, w)"
        by (simp add: hostMatches_def)
      have run: "filterByHostLoop rt lst host (i + 1) (newlst, w) = (r, w')"
        using "1.prems"(1) unfolding step next_state .
      from "1.hyps" [OF True e_def next_state run "1.prems"(2-6)]
      show ?thesis using False drop_i by simp
    next
      case matches: True
      obtain s1 w1 where app: "appendSlice rt w newlst e = (s1, w1)"
        by (cases "appendSlice rt w newlst e")
      from matches have next_state: "(if Value (Host e) = Value host \<or> Ip (Host e) = Ip host
          then appendSlice rt w newlst e else (newlst, w)) = (s1, w1)"
        by (simp add: hostMatches_def app)
      have run: "filterByHostLoop rt lst host (i + 1) (s1, w1) = (r, w')"
        using "1.prems"(1) unfolding step next_state .
      note fr = appendSlice_frame [OF app "1.prems"(5) "1.prems"(4)]
      note el = appendSlice_elems [OF app "1.prems"(6)]
      have lst1: "wfSlice w1 lst \<and> elems w1 lst = elems w lst"
        using "1.prems"(2,3) fr by (intro wfSlice_frame) auto
      from "1.hyps" [OF True e_def next_state run]
      have "wfSlice w' r \<and> n0 \<le> Data r \<and> n0 \<le> length (arrays w') \<and>
         take n0 (arrays w') = take n0 (arrays w1) \<and>
         elems w' r = elems w1 s1 @ filter (hostMatches host) (drop (i + 1) (elems w1 lst)) \<and>
         responseHistory w' = responseHistory w1 \<and> stderr w' = stderr w1 \<and> reqBody w' = reqBody w1"
        using lst1 "1.prems"(3) fr el by blast
      then show ?thesis
        using fr el lst1 matches drop_i by simp
    qed
  qed
qed

lemma makeSlice0_props:
  assumes "makeSlice0 w = (s, w1)"
  shows "Data s = length (arrays w) \<and> wfSlice w1 s \<and> elems w1 s = [] \<and>
     take (length (arrays w)) (arrays w1) = arrays w \<and> length (arrays w) \<le> length (arrays w1) \<and>
     responseHistory w1 = responseHistory w \<and> stderr w1 = stderr w \<and> reqBody w1 = reqBody w"
  using assms by (auto simp: makeSlice0_def wfSlice_def elems_def)

lemma filterByHost_props:
  assumes "filterByHost rt w lst host = (newlst, w')" and "wfSlice w lst"
  shows "wfSlice w' newlst \<and> length (arrays w) \<le> Data newlst \<and>
     take (length (arrays w)) (arrays w') = arrays w \<and>
     elems w' newlst = filter (hostMatches host) (elems w lst) \<and>
     responseHistory w' = responseHistory w \<and> stderr w' = stderr w \<and> reqBody w' = reqBody w"
proof -
  obtain s w1 where mk: "makeSlice0 w = (s, w1)"
    by (cases "makeSlice0 w")
  note m = makeSlice0_props [OF mk]
  have run: "filterByHostLoop rt lst host 0 (s, w1) = (newlst, w')"
    using assms(1) mk by (simp add: filterByHost_def)
  have lt: "Data lst < length (arrays w)"
    using assms(2) by (simp add: wfSlice_def)
  have lst1: "wfSlice w1 lst \<and> elems w1 lst = elems w lst"
    using assms(2) lt m by (intro wfSlice_frame [where ?n0.0 = "length (arrays w)"]) auto
  show ?thesis
    using filterByHostLoop_inv [OF run, of "length (arrays w)"] m lst1 lt by simp
qed


lemma appendSlice_reqBody: "reqBody (snd (appendSlice rt w s e)) = reqBody w"
  by (simp add: appendSlice_def Let_def)

lemma filterByHostLoop_reqBody:
  "reqBody (snd (filterByHostLoop rt lst host i (newlst, w))) = reqBody w"
proof (induction rt lst host i "(newlst, w)" arbitrary: newlst w rule: filterByHostLoop.induct)
  case (1 rt lst host i newlst w)
  show ?case
  proof (cases "i < Len lst")
    case False
    then show ?thesis
      by (simp add: filterByHostLoop.simps [of rt lst host i])
  next
    case True
    define e where "e = arrays w ! Data lst ! i"
    obtain s1 w1 where nxt: "(if Value (Host e) = Value host \<or> Ip (Host e) = Ip host
        then appendSlice rt w newlst e else (newlst, w)) = (s1, w1)"
      by (cases "if Value (Host e) = Value host \<or> Ip (Host e) = Ip host
        then appendSlice rt w newlst e else (newlst, w)")
    have "reqBody w1 = reqBody w"
      using nxt appendSlice_reqBody [of rt w newlst e] by (auto split: if_splits)
    moreover have "filterByHostLoop rt lst host i (newlst, w) =
        filterByHostLoop rt lst host (i + 1)
          (if Value (Host e) = Value host \<or> Ip (Host e) = Ip host
           then appendSlice rt w newlst e else (newlst, w))"
      using True by (subst filterByHostLoop.simps) (simp add: e_def Let_def)
    then have "filterByHostLoop rt lst host i (newlst, w) =
        filterByHostLoop rt lst host (i + 1) (s1, w1)"
      by (simp only: nxt)
    ultimately show ?thesis
      using "1.hyps" [OF True e_def nxt] by simp
  qed
qed

lemma filterByHost_reqBody: "reqBody (snd (filterByHost rt w lst host)) = reqBody w"
proof -
  obtain s w1 where mk: "makeSlice0 w = (s, w1)"
    by (cases "makeSlice0 w")
  then have "reqBody w1 = reqBody w"
    by (auto simp: makeSlice0_def)
  then show ?thesis
    using filterByHostLoop_reqBody [of rt lst host 0 s w1] by (simp add: filterByHost_def mk)
qed

lemma fuzzySort_frame:
  "responseHistory (fuzzySort rt w s host req) = responseHistory w \<and>
   (n0 \<le> Data s \<longrightarrow> take n0 (arrays (fuzzySort rt w s host req)) = take n0 (arrays w))"
  by (simp add: fuzzySort_def ReadAll_def sort_Slice_def Let_def take_update_cancel
      split: option.splits)

lemma fuzzySort_reads:
  "readAlls (reqBody (fuzzySort rt w s host req)) = readAlls (reqBody w) + (if Len s = 0 then 0 else 1) \<and>
   unread (reqBody (fuzzySort rt w s host req)) = (if Len s = 0 then unread (reqBody w) else [])"
  by (simp add: fuzzySort_def ReadAll_def sort_Slice_def Let_def split: option.splits)


lemma HistoryLength_AddToHistory:
  "HistoryLength (AddToHistory rt w itm) = HistoryLength w + 1"
  by (simp add: HistoryLength_def AddToHistory_def appendSlice_def Let_def)

lemma wfSlice_exWorld: "wfSlice (exWorld items b) (responseHistory (exWorld items b))"
  by (simp add: wfSlice_def exWorld_def)

lemma elems_exWorld: "elems (exWorld items b) (responseHistory (exWorld items b)) = items"
  by (simp add: elems_def exWorld_def)

lemma findHost_exRequest: "findHost (exRequest p m) = \<lparr>Value = ''foo'', Ip = ''10.0.0.1''\<rparr>"
  by (simp add: findHost_def HeaderGet_def exRequest_def Let_def)

section \<open>Host filtering\<close>

text \<open>
  C6. On a well-formed slice, \<open>filterByHost\<close> returns a slice that shows exactly the
  items whose host value or host ip is the target's, in the order of the input; when no
  item matches, the slice is empty.
\<close>

theorem filterByHost_spec:
  assumes "wfSlice w lst"
  shows "case filterByHost rt w lst host of (newlst, w') \<Rightarrow>
     elems w' newlst = filter (hostMatches host) (elems w lst) \<and>
     Len newlst = length (filter (hostMatches host) (elems w lst)) \<and>
     ((\<forall>e \<in> set (elems w lst). \<not> hostMatches host e) \<longrightarrow> Len newlst = 0 \<and> elems w' newlst = [])"
proof -
  obtain newlst w' where f: "filterByHost rt w lst host = (newlst, w')"
    by (cases "filterByHost rt w lst host")
  note p = filterByHost_props [OF f assms]
  then have el: "elems w' newlst = filter (hostMatches host) (elems w lst)"
    by simp
  moreover have "length (elems w' newlst) = Len newlst"
    using p by (intro length_elems) simp
  ultimately have "elems w' newlst = filter (hostMatches host) (elems w lst) \<and>
     Len newlst = length (filter (hostMatches host) (elems w lst)) \<and>
     ((\<forall>e \<in> set (elems w lst). \<not> hostMatches host e) \<longrightarrow> Len newlst = 0 \<and> elems w' newlst = [])"
    by (metis filter_False length_0_conv)
  then show ?thesis
    by (simp add: f)
qed

text \<open>
  On \<open>exHistory\<close>: the target foo at 10.0.0.1 keeps the first, second and fourth item, in
  that order; the target qux at 10.7.7.7 keeps none.
\<close>

theorem filterByHost_spec_witness:
  "wfSlice (exWorld exHistory (exBody 0 None)) (responseHistory (exWorld exHistory (exBody 0 None))) \<and>
   (case filterByHost exRuntime (exWorld exHistory (exBody 0 None))
           (responseHistory (exWorld exHistory (exBody 0 None))) \<lparr>Value = ''foo'', Ip = ''10.0.0.1''\<rparr>
    of (newlst, w') \<Rightarrow>
      elems w' newlst =
        [exHostItem ''foo'' ''10.0.0.1'', exHostItem ''bar'' ''10.0.0.1'', exHostItem ''foo'' ''10.9.9.9''] \<and>
      Len newlst = 3) \<and>
   (case filterByHost exRuntime (exWorld exHistory (exBody 0 None))
           (responseHistory (exWorld exHistory (exBody 0 None))) \<lparr>Value = ''qux'', Ip = ''10.7.7.7''\<rparr>
    of (newlst, w') \<Rightarrow> Len newlst = 0 \<and> elems w' newlst = [])"
  using filterByHost_spec [where w = "exWorld exHistory (exBody 0 None)"
      and lst = "responseHistory (exWorld exHistory (exBody 0 None))" and rt = exRuntime
      and host = "\<lparr>Value = ''foo'', Ip = ''10.0.0.1''\<rparr>"]
    filterByHost_spec [where w = "exWorld exHistory (exBody 0 None)"
      and lst = "responseHistory (exWorld exHistory (exBody 0 None))" and rt = exRuntime
      and host = "\<lparr>Value = ''qux'', Ip = ''10.7.7.7''\<rparr>"]
  by (simp add: wfSlice_exWorld elems_exWorld exHistory_def exHostItem_def hostMatches_def
      split_def)

section \<open>Ranking\<close>

lemma strictWeakOrder_asym: "strictWeakOrder lt \<Longrightarrow> lt a b \<Longrightarrow> \<not> lt b a"
  unfolding strictWeakOrder_def by blast

lemma strictWeakOrder_negtrans:
  assumes "strictWeakOrder lt" and "\<not> lt a b" and "\<not> lt b c"
  shows "\<not> lt a c"
proof
  assume ac: "lt a c"
  from assms(1) have irr: "\<And>x. \<not> lt x x"
    and tr: "\<And>x y z. lt x y \<Longrightarrow> lt y z \<Longrightarrow> lt x z"
    and inc: "\<And>x y z. \<not> lt x y \<Longrightarrow> \<not> lt y x \<Longrightarrow> \<not> lt y z \<Longrightarrow> \<not> lt z y \<Longrightarrow> \<not> lt x z"
    unfolding strictWeakOrder_def by blast+
  have "\<not> lt b a"
    using tr [of b a c] ac assms(3) by blast
  moreover have "\<not> lt c b"
    using tr [of a c b] ac assms(2) by blast
  ultimately show False
    using inc [of a b c] assms(2,3) ac by blast
qed

text \<open>
  On slices of at most 12 elements the library's \<open>sort.Slice\<close> is its insertion sort,
  which meets the contract.
\<close>

lemma lessAt_byElems:
  "lessAt (byElems lt) xs i j \<longleftrightarrow> i < length xs \<and> j < length xs \<and> lt (xs ! i) (xs ! j)"
  by (auto simp: lessAt_def byElems_def)

lemma mset_swapAt: "i < length xs \<Longrightarrow> j < length xs \<Longrightarrow> mset (swapAt xs i j) = mset xs"
  unfolding swapAt_def by (rule mset_swap)

lemma length_swapAt: "length (swapAt xs i j) = length xs"
  by (simp add: swapAt_def)

lemma insertionSortInner_sorts:
  assumes swo: "strictWeakOrder lt"
  shows "j \<le> i \<Longrightarrow> i < length xs \<Longrightarrow>
     \<forall>p q. p < q \<and> q \<le> i \<and> q \<noteq> j \<longrightarrow> \<not> lt (xs ! q) (xs ! p) \<Longrightarrow>
     mset (insertionSortInner (byElems lt) 0 j xs) = mset xs \<and>
     (\<forall>p q. p < q \<and> q \<le> i \<longrightarrow>
        \<not> lt (insertionSortInner (byElems lt) 0 j xs ! q) (insertionSortInner (byElems lt) 0 j xs ! p))"
proof (induction j arbitrary: xs)
  case 0
  have "insertionSortInner (byElems lt) 0 0 xs = xs"
    by (subst insertionSortInner.simps) simp
  with 0 show ?case by auto
next
  case (Suc j)
  show ?case
  proof (cases "lt (xs ! Suc j) (xs ! j)")
    case True
    define ys where "ys = swapAt xs (Suc j) j"
    have run: "insertionSortInner (byElems lt) 0 (Suc j) xs = insertionSortInner (byElems lt) 0 j ys"
      using True Suc.prems(1,2)
      by (subst insertionSortInner.simps) (simp add: lessAt_byElems ys_def)
    have len: "length ys = length xs"
      by (simp add: ys_def length_swapAt)
    have ms: "mset ys = mset xs"
      unfolding ys_def using Suc.prems(1,2) by (intro mset_swapAt) auto
    have asym: "\<not> lt (xs ! j) (xs ! Suc j)"
      using True swo by (rule strictWeakOrder_asym [rotated])
    have inv: "\<forall>p q. p < q \<and> q \<le> i \<and> q \<noteq> j \<longrightarrow> \<not> lt (ys ! q) (ys ! p)"
    proof (intro allI impI)
      fix p q
      assume pq: "p < q \<and> q \<le> i \<and> q \<noteq> j"
      have nth: "ys ! k = (if k = j then xs ! Suc j else if k = Suc j then xs ! j else xs ! k)"
        if "k < length xs" for k
        using that Suc.prems(1,2) by (simp add: ys_def swapAt_def nth_list_update)
      have old: "\<not> lt (xs ! q') (xs ! p')" if "p' < q'" "q' \<le> i" "q' \<noteq> Suc j" for p' q'
        using Suc.prems(3) that by blast
      from pq Suc.prems(1,2) have "p < length xs" "q < length xs"
        by auto
      then show "\<not> lt (ys ! q) (ys ! p)"
        using pq asym old [of p q] old [of "Suc j" q] old [of j q] old [of p j]
        by (auto simp: nth)
    qed
    from Suc.IH [of ys] Suc.prems(1,2) len inv ms show ?thesis
      unfolding run by simp
  next
    case False
    have run: "insertionSortInner (byElems lt) 0 (Suc j) xs = xs"
      using False by (subst insertionSortInner.simps) (simp add: lessAt_byElems)
    have "\<not> lt (xs ! q) (xs ! p)" if "p < q" "q \<le> i" for p q
    proof (cases "q = Suc j")
      case neq: False
      with Suc.prems(3) that show ?thesis by blast
    next
      case q: True
      show ?thesis
      proof (cases "p = j")
        case True
        with q False show ?thesis by simp
      next
        case pj: False
        with that q have "p < j" by simp
        with Suc.prems(1,3) have "\<not> lt (xs ! j) (xs ! p)"
          by auto
        with False show ?thesis
          unfolding q by (rule strictWeakOrder_negtrans [OF swo])
      qed
    qed
    then show ?thesis
      unfolding run by simp
  qed
qed

lemma insertionSortOuter_sorts:
  assumes swo: "strictWeakOrder lt"
  shows "b \<le> length xs \<Longrightarrow> \<forall>p q. p < q \<and> q < i \<longrightarrow> \<not> lt (xs ! q) (xs ! p) \<Longrightarrow>
     mset (insertionSortOuter (byElems lt) 0 b i xs) = mset xs \<and>
     (\<forall>p q. p < q \<and> q < b \<longrightarrow>
        \<not> lt (insertionSortOuter (byElems lt) 0 b i xs ! q) (insertionSortOuter (byElems lt) 0 b i xs ! p))"
proof (induction "b - i" arbitrary: i xs)
  case 0
  then have "insertionSortOuter (byElems lt) 0 b i xs = xs"
    by (subst insertionSortOuter.simps) simp
  with 0 show ?case by auto
next
  case (Suc n)
  then have ib: "i < b" by simp
  define ys where "ys = insertionSortInner (byElems lt) 0 i xs"
  have run: "insertionSortOuter (byElems lt) 0 b i xs = insertionSortOuter (byElems lt) 0 b (i + 1) ys"
    using ib by (subst insertionSortOuter.simps) (simp add: ys_def)
  have "\<forall>p q. p < q \<and> q \<le> i \<and> q \<noteq> i \<longrightarrow> \<not> lt (xs ! q) (xs ! p)"
    using Suc.prems(2) by auto
  with insertionSortInner_sorts [OF swo, of i i xs] ib Suc.prems(1)
  have inner: "mset ys = mset xs" "\<forall>p q. p < q \<and> q \<le> i \<longrightarrow> \<not> lt (ys ! q) (ys ! p)"
    unfolding ys_def by auto
  from inner(1) have "length ys = length xs"
    by (metis size_mset)
  moreover from inner(2) have "\<forall>p q. p < q \<and> q < i + 1 \<longrightarrow> \<not> lt (ys ! q) (ys ! p)"
    by auto
  moreover from Suc.hyps(2) have "n = b - (i + 1)"
    by simp
  ultimately show ?case
    using Suc.hyps(1) [of "i + 1" ys] Suc.prems(1) inner(1) unfolding run by simp
qed

lemma pdqsort_func_small:
  "b - a \<le> 12 \<Longrightarrow>
   pdqsort_func nxt lessFn xs a b limit wasBalanced wasPartitioned = insertionSort_func lessFn a b xs"
  by (subst pdqsort_func.simps) simp

lemma goSortSlice_conforms:
  assumes "n \<le> 12"
  shows "sortSliceSpec (goSortSlice nxt) n"
  unfolding sortSliceSpec_def
proof (intro allI impI)
  fix lt :: "Item \<Rightarrow> Item \<Rightarrow> bool" and xs :: "Item list"
  assume h: "strictWeakOrder lt \<and> length xs = n"
  define ys where "ys = insertionSortOuter (byElems lt) 0 (length xs) (0 + 1) xs"
  have eq: "goSortSlice nxt (byElems lt) xs = ys"
    using h assms by (simp add: goSortSlice_def pdqsort_func_small insertionSort_func_def ys_def)
  from h insertionSortOuter_sorts [of lt "length xs" xs "0 + 1"]
  have r: "mset ys = mset xs" "\<forall>p q. p < q \<and> q < length xs \<longrightarrow> \<not> lt (ys ! q) (ys ! p)"
    unfolding ys_def by auto
  from r(1) have "length ys = length xs"
    by (metis size_mset)
  with r(2) have "sorted_wrt (\<lambda>a b. \<not> lt b a) ys"
    by (simp add: sorted_wrt_iff_nth_less)
  with r(1) show "mset (goSortSlice nxt (byElems lt) xs) = mset xs \<and>
      sorted_wrt (\<lambda>a b. \<not> lt b a) (goSortSlice nxt (byElems lt) xs)"
    unfolding eq by simp
qed

text \<open>
  On \<open>exThirteen\<close> the library's \<open>sort.Slice\<close> takes the element at index 6 as pivot,
  finds the slice out of order at its last element, partitions it once and leaves the
  two sides to the insertion sort, which has nothing to move. The pattern breaker is not
  reached, so the result is the same for every generator.
\<close>

lemma length_exThirteen: "length exThirteen = 13"
  by (simp add: exThirteen_def)

lemma length_exThirteenSorted: "length exThirteenSorted = 13"
  by (simp add: exThirteenSorted_def)

lemma bitsLen_13: "bitsLen 13 = 4"
  by code_simp

lemma pdqsortPrepare_exThirteen:
  "pdqsortPrepare nxt (\<lambda>cur. fuzzyComparer cur (exArgs ''/x'' ''GET'' 0)) exThirteen 0 13 4 True True =
     (False, exThirteen, 6, 4)"
  by code_simp

lemma partition_func_exThirteen:
  "partition_func (\<lambda>cur. fuzzyComparer cur (exArgs ''/x'' ''GET'' 0)) 0 13 6 exThirteen =
     (1, False, exThirteenSorted)"
  by code_simp

lemma insertionSort_func_left:
  "insertionSort_func (\<lambda>cur. fuzzyComparer cur (exArgs ''/x'' ''GET'' 0)) 0 1 exThirteenSorted =
     exThirteenSorted"
  by code_simp

lemma insertionSort_func_right:
  "insertionSort_func (\<lambda>cur. fuzzyComparer cur (exArgs ''/x'' ''GET'' 0)) 2 13 exThirteenSorted =
     exThirteenSorted"
  by code_simp

lemma goSortSlice_exThirteen:
  "goSortSlice nxt (\<lambda>cur. fuzzyComparer cur (exArgs ''/x'' ''GET'' 0)) exThirteen = exThirteenSorted"
proof -
  let ?less = "\<lambda>cur. fuzzyComparer cur (exArgs ''/x'' ''GET'' 0)"
  have left: "pdqsort_func nxt ?less exThirteenSorted 0 1 4 True True = exThirteenSorted"
    using insertionSort_func_left by (simp add: pdqsort_func_small)
  have right: "pdqsort_func nxt ?less exThirteenSorted 2 13 4 True False = exThirteenSorted"
    using insertionSort_func_right by (simp add: pdqsort_func_small)
  have main: "pdqsort_func nxt ?less exThirteen 0 13 4 True True =
      pdqsort_func nxt ?less (pdqsort_func nxt ?less exThirteenSorted 0 1 4 True True)
        2 13 4 True False"
    by (subst pdqsort_func.simps)
       (simp add: pdqsortPrepare_exThirteen partition_func_exThirteen numeral_2_eq_2)
  show ?thesis
    unfolding goSortSlice_def length_exThirteen bitsLen_13 main left right
    by (rule refl)
qed

text \<open>
  C4, as the code has it. \<open>fuzzySort\<close> sorts with \<open>sort.Slice\<close>, which is not a stable sort.
  With a body that can be read and any \<open>sort.Slice\<close> that meets its contract on slices of
  this length, the slice shows the same candidates after the call as before, and no
  candidate is strictly better than one placed ahead of it. Nothing is promised on the
  order of candidates the closure does not tell apart.
\<close>

theorem fuzzySort_orders_candidates:
  assumes "sortSliceSpec (sortSlice rt) (Len reqs)" and "wfSlice w reqs" and "Len reqs \<noteq> 0"
    and "fault (reqBody w) = None"
  shows "mset (elems (fuzzySort rt w reqs host req) reqs) = mset (elems w reqs) \<and>
     (\<forall>i j. i < j \<and> j < Len reqs \<longrightarrow>
        fuzzyComparer (elems (fuzzySort rt w reqs host req) reqs)
          \<lparr>argsRequest = unread (reqBody w), argsHost = host, argsPort = reqURLPort req,
           argsProtocol = reqProto req, argsMethod = reqMethod req,
           argsPath = reqURLEscapedPath req\<rparr> j i = Some False)"
proof -
  define args where "args = \<lparr>argsRequest = unread (reqBody w), argsHost = host,
     argsPort = reqURLPort req, argsProtocol = reqProto req, argsMethod = reqMethod req,
     argsPath = reqURLEscapedPath req\<rparr>"
  define lt where "lt = (\<lambda>a b. rank args a < rank args b)"
  define ys where "ys = sortSlice rt (byElems lt) (elems w reqs)"
  have swo: "strictWeakOrder lt"
    unfolding lt_def by (rule strictWeakOrder_rank)
  have "length (elems w reqs) = Len reqs"
    using assms(2) by (rule length_elems)
  with assms(1) swo have ms: "mset ys = mset (elems w reqs)"
    and srt: "sorted_wrt (\<lambda>a b. \<not> lt b a) ys"
    unfolding sortSliceSpec_def ys_def by blast+
  have len: "length ys = Len reqs"
    using ms assms(2) by (metis length_elems size_mset)
  have "fuzzySort rt w reqs host req = sort_Slice rt (snd (ReadAll w)) reqs (byElems lt)"
    using assms(3,4) unfolding lt_def fuzzyComparer_byElems [symmetric]
    by (simp add: fuzzySort_def ReadAll_def args_def)
  then have res: "elems (fuzzySort rt w reqs host req) reqs = ys"
    using assms(2) len
    by (simp add: sort_Slice_def ReadAll_def elems_def wfSlice_def ys_def)
  have "fuzzyComparer ys args j i = Some False" if "i < j" and "j < Len reqs" for i j
  proof -
    from that len have "\<not> lt (ys ! j) (ys ! i)"
      using srt by (simp add: sorted_wrt_iff_nth_less)
    with that len show ?thesis
      by (simp add: fuzzyComparer_rank lt_def)
  qed
  then show ?thesis
    using ms res unfolding args_def by simp
qed

text \<open>
  Three candidates for a GET of /x with a body of 100 bytes, sorted by the library's
  \<open>sort.Slice\<close>: the same three come back, and the last is not strictly better than the
  first.
\<close>

theorem fuzzySort_orders_candidates_witness:
  "sortSliceSpec (sortSlice exRuntime) (Len \<lparr>Data = 0, Len = 3, Cap = 3\<rparr>) \<and>
   wfSlice (exWorld [exItem ''foo'' ''/x'' ''POST'' 95, exItem ''foo'' ''/x'' ''GET'' 50,
        exItem ''foo'' ''/x'' ''GET'' 95] (exBody 100 None)) \<lparr>Data = 0, Len = 3, Cap = 3\<rparr> \<and>
   Len \<lparr>Data = 0, Len = 3, Cap = 3\<rparr> \<noteq> 0 \<and>
   fault (reqBody (exWorld [exItem ''foo'' ''/x'' ''POST'' 95, exItem ''foo'' ''/x'' ''GET'' 50,
        exItem ''foo'' ''/x'' ''GET'' 95] (exBody 100 None))) = None \<and>
   mset (elems (fuzzySort exRuntime
       (exWorld [exItem ''foo'' ''/x'' ''POST'' 95, exItem ''foo'' ''/x'' ''GET'' 50,
          exItem ''foo'' ''/x'' ''GET'' 95] (exBody 100 None))
       \<lparr>Data = 0, Len = 3, Cap = 3\<rparr> \<lparr>Value = ''foo'', Ip = ''10.0.0.1''\<rparr> (exRequest ''/x'' ''GET''))
     \<lparr>Data = 0, Len = 3, Cap = 3\<rparr>) =
     {#exItem ''foo'' ''/x'' ''POST'' 95, exItem ''foo'' ''/x'' ''GET'' 50, exItem ''foo'' ''/x'' ''GET'' 95#} \<and>
   fuzzyComparer (elems (fuzzySort exRuntime
       (exWorld [exItem ''foo'' ''/x'' ''POST'' 95, exItem ''foo'' ''/x'' ''GET'' 50,
          exItem ''foo'' ''/x'' ''GET'' 95] (exBody 100 None))
       \<lparr>Data = 0, Len = 3, Cap = 3\<rparr> \<lparr>Value = ''foo'', Ip = ''10.0.0.1''\<rparr> (exRequest ''/x'' ''GET''))
     \<lparr>Data = 0, Len = 3, Cap = 3\<rparr>) (exArgs ''/x'' ''GET'' 100) 2 0 = Some False"
proof -
  let ?w = "exWorld [exItem ''foo'' ''/x'' ''POST'' 95, exItem ''foo'' ''/x'' ''GET'' 50,
        exItem ''foo'' ''/x'' ''GET'' 95] (exBody 100 None)"
  let ?s = "\<lparr>Data = 0, Len = 3, Cap = 3\<rparr>"
  have h1: "sortSliceSpec (sortSlice exRuntime) (Len ?s)"
    by (simp add: exRuntime_def goSortSlice_conforms)
  have h2: "wfSlice ?w ?s"
    by (simp add: wfSlice_def exWorld_def)
  have h3: "Len ?s \<noteq> 0"
    by simp
  have h4: "fault (reqBody ?w) = None"
    by (simp add: exWorld_def exBody_def)
  have args: "\<lparr>argsRequest = unread (reqBody ?w), argsHost = \<lparr>Value = ''foo'', Ip = ''10.0.0.1''\<rparr>,
      argsPort = reqURLPort (exRequest ''/x'' ''GET''), argsProtocol = reqProto (exRequest ''/x'' ''GET''),
      argsMethod = reqMethod (exRequest ''/x'' ''GET''),
      argsPath = reqURLEscapedPath (exRequest ''/x'' ''GET'')\<rparr> = exArgs ''/x'' ''GET'' 100"
    by (simp add: exWorld_def exBody_def exRequest_def exArgs_def)
  have el: "elems ?w ?s = [exItem ''foo'' ''/x'' ''POST'' 95, exItem ''foo'' ''/x'' ''GET'' 50,
        exItem ''foo'' ''/x'' ''GET'' 95]"
    by (simp add: elems_def exWorld_def)
  note t = fuzzySort_orders_candidates [OF h1 h2 h3 h4, of "\<lparr>Value = ''foo'', Ip = ''10.0.0.1''\<rparr>"
      "exRequest ''/x'' ''GET''", unfolded args el]
  from t have "fuzzyComparer (elems (fuzzySort exRuntime ?w ?s \<lparr>Value = ''foo'', Ip = ''10.0.0.1''\<rparr>
      (exRequest ''/x'' ''GET'')) ?s) (exArgs ''/x'' ''GET'' 100) 2 0 = Some False"
    by simp
  with t h1 h2 h3 h4 show ?thesis
    by simp
qed

text \<open>
  C4, as the spec states it, fails on the thirteen candidates of \<open>exThirteen\<close>. The
  candidates recorded under c and g are not told apart by the comparator; c is third and
  g seventh in the input; after \<open>fuzzySort\<close>, with the library's \<open>sort.Slice\<close>, g is second
  and c third.
\<close>

theorem fuzzySort_stability_counterexample:
  "elems (exWorld exThirteen (exBody 0 None)) \<lparr>Data = 0, Len = 13, Cap = 13\<rparr> = exThirteen \<and>
   exThirteen ! 2 = exItem ''c'' ''/x'' ''GET'' 5 \<and>
   exThirteen ! 6 = exItem ''g'' ''/x'' ''GET'' 5 \<and>
   fuzzyComparer exThirteen (exArgs ''/x'' ''GET'' 0) 2 6 = Some False \<and>
   fuzzyComparer exThirteen (exArgs ''/x'' ''GET'' 0) 6 2 = Some False \<and>
   elems (fuzzySort exRuntime (exWorld exThirteen (exBody 0 None))
       \<lparr>Data = 0, Len = 13, Cap = 13\<rparr> \<lparr>Value = ''foo'', Ip = ''10.0.0.1''\<rparr> (exRequest ''/x'' ''GET''))
     \<lparr>Data = 0, Len = 13, Cap = 13\<rparr> = exThirteenSorted \<and>
   exThirteenSorted ! 1 = exItem ''g'' ''/x'' ''GET'' 5 \<and>
   exThirteenSorted ! 2 = exItem ''c'' ''/x'' ''GET'' 5 \<and>
   exItem ''c'' ''/x'' ''GET'' 5 \<noteq> exItem ''g'' ''/x'' ''GET'' 5"
proof -
  let ?w = "exWorld exThirteen (exBody 0 None)"
  let ?s = "\<lparr>Data = 0, Len = 13, Cap = 13\<rparr>"
  have el: "elems ?w ?s = exThirteen"
    by (simp add: elems_def exWorld_def length_exThirteen)
  have pos: "exThirteen ! 2 = exItem ''c'' ''/x'' ''GET'' 5"
    "exThirteen ! 6 = exItem ''g'' ''/x'' ''GET'' 5"
    "exThirteenSorted ! 1 = exItem ''g'' ''/x'' ''GET'' 5"
    "exThirteenSorted ! 2 = exItem ''c'' ''/x'' ''GET'' 5"
    by (simp_all add: exThirteen_def exThirteenSorted_def)
  have tie: "fuzzyComparer exThirteen (exArgs ''/x'' ''GET'' 0) 2 6 = Some False"
    "fuzzyComparer exThirteen (exArgs ''/x'' ''GET'' 0) 6 2 = Some False"
    by (simp_all add: fuzzyComparer_def longestPrefix_def length_exThirteen pos exItem_def
        exArgs_def Let_def)
  have args: "\<lparr>argsRequest = unread (reqBody ?w), argsHost = \<lparr>Value = ''foo'', Ip = ''10.0.0.1''\<rparr>,
      argsPort = reqURLPort (exRequest ''/x'' ''GET''), argsProtocol = reqProto (exRequest ''/x'' ''GET''),
      argsMethod = reqMethod (exRequest ''/x'' ''GET''),
      argsPath = reqURLEscapedPath (exRequest ''/x'' ''GET'')\<rparr> = exArgs ''/x'' ''GET'' 0"
    by (simp add: exWorld_def exBody_def exRequest_def exArgs_def)
  have "fuzzySort exRuntime ?w ?s \<lparr>Value = ''foo'', Ip = ''10.0.0.1''\<rparr> (exRequest ''/x'' ''GET'') =
      sort_Slice exRuntime (snd (ReadAll ?w)) ?s (\<lambda>cur. fuzzyComparer cur (exArgs ''/x'' ''GET'' 0))"
    unfolding args [symmetric]
    by (simp add: fuzzySort_def ReadAll_def exWorld_def exBody_def)
  moreover have "elems (snd (ReadAll ?w)) ?s = exThirteen"
    by (simp add: ReadAll_def elems_def exWorld_def length_exThirteen)
  ultimately have out: "elems (fuzzySort exRuntime ?w ?s \<lparr>Value = ''foo'', Ip = ''10.0.0.1''\<rparr>
      (exRequest ''/x'' ''GET'')) ?s = exThirteenSorted"
    by (simp add: sort_Slice_def exRuntime_def goSortSlice_exThirteen)
       (simp add: elems_def ReadAll_def exWorld_def length_exThirteen length_exThirteenSorted)
  have "exItem ''c'' ''/x'' ''GET'' 5 \<noteq> exItem ''g'' ''/x'' ''GET'' 5"
    by (simp add: exItem_def)
  with el pos tie out show ?thesis
    by simp
qed

text \<open>
  C8. When the body of the request cannot be read, \<open>fuzzySort\<close> on a non-empty slice
  leaves every array as it was, so the candidates keep their order, and writes one line
  to standard error. It has no error result, and neither has \<open>FindMatching\<close>, which
  leaves the heap as \<open>filterByHost\<close> left it and returns the empty string.
\<close>

theorem fuzzySort_read_failure:
  assumes "fault (reqBody w) = Some msg"
  shows "(Len reqs \<noteq> 0 \<longrightarrow>
       arrays (fuzzySort rt w reqs host req) = arrays w \<and>
       elems (fuzzySort rt w reqs host req) reqs = elems w reqs \<and>
       stderr (fuzzySort rt w reqs host req) =
         stderr w @ [''mocksy: error reading body of request while sorting: '' @ msg @ [CHR 0x0A]]) \<and>
     arrays (snd (FindMatching rt w req)) =
       arrays (snd (filterByHost rt w (responseHistory w) (findHost req))) \<and>
     fst (FindMatching rt w req) = []"
proof -
  have unsorted: "arrays (fuzzySort rt v s h req) = arrays v"
    if "fault (reqBody v) = Some msg" for v s h
    using that by (simp add: fuzzySort_def ReadAll_def Let_def)
  have "fault (reqBody (snd (filterByHost rt w (responseHistory w) (findHost req)))) = Some msg"
    using assms by (simp add: filterByHost_reqBody)
  then have "arrays (snd (FindMatching rt w req)) =
      arrays (snd (filterByHost rt w (responseHistory w) (findHost req)))"
    by (simp add: FindMatching_def Let_def split_def unsorted)
  moreover have "fst (FindMatching rt w req) = []"
    by (simp add: FindMatching_def Let_def split_def)
  ultimately show ?thesis
    using assms by (simp add: fuzzySort_def ReadAll_def Let_def elems_def)
qed

text \<open>
  The body stream fails with "unexpected EOF": the four candidates stay in place and
  standard error receives the message.
\<close>

theorem fuzzySort_read_failure_witness:
  "fault (reqBody (exWorld exHistory (exBody 3 (Some ''unexpected EOF'')))) = Some ''unexpected EOF'' \<and>
   Len \<lparr>Data = 0, Len = 4, Cap = 4\<rparr> \<noteq> 0 \<and>
   elems (fuzzySort exRuntime (exWorld exHistory (exBody 3 (Some ''unexpected EOF'')))
      \<lparr>Data = 0, Len = 4, Cap = 4\<rparr>
      \<lparr>Value = ''foo'', Ip = ''10.0.0.1''\<rparr> (exRequest ''/x'' ''GET''))
      \<lparr>Data = 0, Len = 4, Cap = 4\<rparr> = exHistory \<and>
   stderr (fuzzySort exRuntime (exWorld exHistory (exBody 3 (Some ''unexpected EOF'')))
      \<lparr>Data = 0, Len = 4, Cap = 4\<rparr>
      \<lparr>Value = ''foo'', Ip = ''10.0.0.1''\<rparr> (exRequest ''/x'' ''GET'')) =
     [''mocksy: error reading body of request while sorting: unexpected EOF'' @ [CHR 0x0A]]"
  using fuzzySort_read_failure [of "exWorld exHistory (exBody 3 (Some ''unexpected EOF''))"
      "''unexpected EOF''" "\<lparr>Data = 0, Len = 4, Cap = 4\<rparr>" exRuntime
      "\<lparr>Value = ''foo'', Ip = ''10.0.0.1''\<rparr>" "exRequest ''/x'' ''GET''"]
  by (simp add: exWorld_def exBody_def exHistory_def elems_def)

section \<open>Selection\<close>

text \<open>
  Well-formedness of the history is an invariant of the package: it holds when the
  process starts, and \<open>AddToHistory\<close> and \<open>FindMatching\<close> keep it.
\<close>

lemma wfSlice_init:
  "wfSlice (init b) (responseHistory (init b)) \<and> elems (init b) (responseHistory (init b)) = [] \<and>
   HistoryLength (init b) = 0"
  by (simp add: init_def makeSlice0_def wfSlice_def elems_def HistoryLength_def)

lemma wfSlice_AddToHistory:
  assumes "wfSlice w (responseHistory w)"
  shows "wfSlice (AddToHistory rt w itm) (responseHistory (AddToHistory rt w itm)) \<and>
     elems (AddToHistory rt w itm) (responseHistory (AddToHistory rt w itm)) =
       elems w (responseHistory w) @ [itm]"
proof -
  obtain s w1 where app: "appendSlice rt w (responseHistory w) itm = (s, w1)"
    by (cases "appendSlice rt w (responseHistory w) itm")
  from appendSlice_elems [OF app assms] show ?thesis
    by (simp add: AddToHistory_def app wfSlice_def elems_def)
qed

lemma FindMatching_frame:
  assumes "wfSlice w (responseHistory w)"
  shows "responseHistory (snd (FindMatching rt w req)) = responseHistory w \<and>
     take (length (arrays w)) (arrays (snd (FindMatching rt w req))) = arrays w \<and>
     length (arrays w) \<le> length (arrays (snd (FindMatching rt w req))) \<and>
     length (arrays w) \<le> Data (fst (filterByHost rt w (responseHistory w) (findHost req)))"
proof -
  obtain s w1 where f: "filterByHost rt w (responseHistory w) (findHost req) = (s, w1)"
    by (cases "filterByHost rt w (responseHistory w) (findHost req)")
  note p = filterByHost_props [OF f assms]
  define w2 where "w2 = fuzzySort rt w1 s (findHost req) req"
  have w2: "snd (FindMatching rt w req) = w2"
    by (simp add: FindMatching_def Let_def f w2_def)
  note fr = fuzzySort_frame [of rt w1 s "findHost req" req "length (arrays w)"]
  have tk: "take (length (arrays w)) (arrays w2) = arrays w"
    using p fr by (simp add: w2_def)
  then have "length (take (length (arrays w)) (arrays w2)) = length (arrays w)"
    by simp
  then have "length (arrays w) \<le> length (arrays w2)"
    by simp
  then show ?thesis
    using p fr tk by (simp add: w2 f) (simp add: w2_def)
qed

lemma wfSlice_FindMatching:
  assumes "wfSlice w (responseHistory w)"
  shows "wfSlice (snd (FindMatching rt w req)) (responseHistory (snd (FindMatching rt w req)))"
proof -
  note fr = FindMatching_frame [OF assms, of rt req]
  have "Data (responseHistory w) < length (arrays w)"
    using assms by (simp add: wfSlice_def)
  with assms fr
  have "wfSlice (snd (FindMatching rt w req)) (responseHistory w) \<and>
     elems (snd (FindMatching rt w req)) (responseHistory w) = elems w (responseHistory w)"
    by (intro wfSlice_frame [where ?n0.0 = "length (arrays w)"]) auto
  with fr show ?thesis by simp
qed

text \<open>
  C1. \<open>FindMatching\<close> returns the empty string for every request, every world and every
  runtime.
\<close>

theorem FindMatching_returns_empty: "fst (FindMatching rt w req) = []"
  by (simp add: FindMatching_def Let_def split_def)

text \<open>
  C9, as the code has it. \<open>FindMatching\<close> reads the body to its end once when some item of
  the history matches the host of the request, and does not touch it when none does.
\<close>

theorem FindMatching_body_reads:
  assumes "wfSlice w (responseHistory w)"
  shows "readAlls (reqBody (snd (FindMatching rt w req))) =
       readAlls (reqBody w) +
         (if filter (hostMatches (findHost req)) (elems w (responseHistory w)) = [] then 0 else 1) \<and>
     unread (reqBody (snd (FindMatching rt w req))) =
         (if filter (hostMatches (findHost req)) (elems w (responseHistory w)) = []
          then unread (reqBody w) else [])"
proof -
  obtain s w1 where f: "filterByHost rt w (responseHistory w) (findHost req) = (s, w1)"
    by (cases "filterByHost rt w (responseHistory w) (findHost req)")
  note p = filterByHost_props [OF f assms]
  have "length (elems w1 s) = Len s"
    using p by (intro length_elems) simp
  then have "Len s = 0 \<longleftrightarrow> filter (hostMatches (findHost req)) (elems w (responseHistory w)) = []"
    using p by (metis length_0_conv)
  moreover have "snd (FindMatching rt w req) = fuzzySort rt w1 s (findHost req) req"
    by (simp add: FindMatching_def Let_def f)
  ultimately show ?thesis
    using p by (simp add: fuzzySort_reads)
qed

text \<open>
  With \<open>exHistory\<close> the body is read once and drained; with a history of one item recorded
  for another host under another ip it is not read and keeps its three bytes.
\<close>

theorem FindMatching_body_reads_witness:
  "wfSlice (exWorld exHistory (exBody 3 None)) (responseHistory (exWorld exHistory (exBody 3 None))) \<and>
   readAlls (reqBody (snd (FindMatching exRuntime (exWorld exHistory (exBody 3 None))
      (exRequest ''/x'' ''GET'')))) = 1 \<and>
   unread (reqBody (snd (FindMatching exRuntime (exWorld exHistory (exBody 3 None))
      (exRequest ''/x'' ''GET'')))) = [] \<and>
   wfSlice (exWorld [exHostItem ''bar'' ''10.9.9.9''] (exBody 3 None))
      (responseHistory (exWorld [exHostItem ''bar'' ''10.9.9.9''] (exBody 3 None))) \<and>
   readAlls (reqBody (snd (FindMatching exRuntime
      (exWorld [exHostItem ''bar'' ''10.9.9.9''] (exBody 3 None)) (exRequest ''/x'' ''GET'')))) = 0 \<and>
   unread (reqBody (snd (FindMatching exRuntime
      (exWorld [exHostItem ''bar'' ''10.9.9.9''] (exBody 3 None)) (exRequest ''/x'' ''GET'')))) = [0, 0, 0]"
  using FindMatching_body_reads [of "exWorld exHistory (exBody 3 None)" exRuntime "exRequest ''/x'' ''GET''"]
    FindMatching_body_reads [of "exWorld [exHostItem ''bar'' ''10.9.9.9''] (exBody 3 None)" exRuntime
      "exRequest ''/x'' ''GET''"]
  by (simp add: wfSlice_exWorld elems_exWorld findHost_exRequest exHistory_def exHostItem_def
      hostMatches_def) (simp add: exWorld_def exBody_def numeral_3_eq_3)

text \<open>
  C9, as the spec states it, fails: the history holds one item, recorded for host bar at
  10.9.9.9; the request goes to foo from 10.0.0.1; the filtered list is empty and the
  body has not been read once after the call.
\<close>

theorem FindMatching_body_reads_counterexample:
  "readAlls (reqBody (snd (FindMatching exRuntime
       (exWorld [exHostItem ''bar'' ''10.9.9.9''] (exBody 3 None)) (exRequest ''/x'' ''GET'')))) \<noteq>
   readAlls (reqBody (exWorld [exHostItem ''bar'' ''10.9.9.9''] (exBody 3 None))) + 1"
  by (simp add: FindMatching_def findHost_def HeaderGet_def exRequest_def exWorld_def
      exHostItem_def exBody_def filterByHost_def makeSlice0_def filterByHostLoop.simps
      fuzzySort_def Let_def)

text \<open>
  C10. \<open>FindMatching\<close> leaves the history as it was: the header \<open>responseHistory\<close>, the
  elements it shows and their order, and every array that existed before the call. The
  list that \<open>filterByHost\<close> returns lives at an address that did not exist before the
  call, and the sort writes to that array only.
\<close>

theorem FindMatching_preserves_history:
  assumes "wfSlice w (responseHistory w)"
  shows "responseHistory (snd (FindMatching rt w req)) = responseHistory w \<and>
     elems (snd (FindMatching rt w req)) (responseHistory w) = elems w (responseHistory w) \<and>
     take (length (arrays w)) (arrays (snd (FindMatching rt w req))) = arrays w \<and>
     length (arrays w) \<le> Data (fst (filterByHost rt w (responseHistory w) (findHost req)))"
proof -
  note fr = FindMatching_frame [OF assms, of rt req]
  have "Data (responseHistory w) < length (arrays w)"
    using assms by (simp add: wfSlice_def)
  with assms fr
  have "wfSlice (snd (FindMatching rt w req)) (responseHistory w) \<and>
     elems (snd (FindMatching rt w req)) (responseHistory w) = elems w (responseHistory w)"
    by (intro wfSlice_frame [where ?n0.0 = "length (arrays w)"]) auto
  with fr show ?thesis by simp
qed

text \<open>With \<open>exHistory\<close>: header and elements are the same after a match as before.\<close>

theorem FindMatching_preserves_history_witness:
  "wfSlice (exWorld exHistory (exBody 3 None)) (responseHistory (exWorld exHistory (exBody 3 None))) \<and>
   responseHistory (snd (FindMatching exRuntime (exWorld exHistory (exBody 3 None))
      (exRequest ''/x'' ''GET''))) = \<lparr>Data = 0, Len = 4, Cap = 4\<rparr> \<and>
   elems (snd (FindMatching exRuntime (exWorld exHistory (exBody 3 None)) (exRequest ''/x'' ''GET'')))
      (responseHistory (exWorld exHistory (exBody 3 None))) = exHistory"
  using FindMatching_preserves_history [of "exWorld exHistory (exBody 3 None)" exRuntime
      "exRequest ''/x'' ''GET''"]
  by (simp add: wfSlice_exWorld elems_exWorld) (simp add: exWorld_def exHistory_def)

end
